theory Spec2Isabelle
  imports Complex_Main
begin

section \<open>JavaScript strings and values\<close>

text \<open>
  Strings are \<^typ>\<open>string\<close>; the model covers ASCII text, which is what the canonical
  command tables, the cache keys of the examples and the prompts are made of. A character
  outside ASCII is left alone by \<open>toLowerCase\<close> and is never white space for \<open>trim\<close>.
\<close>

definition isWhiteSpace :: "char \<Rightarrow> bool" where
  "isWhiteSpace c = (c \<in> set [CHR '' '', CHR 0x09, CHR 0x0A, CHR 0x0B, CHR 0x0C, CHR 0x0D])"

definition trim :: "string \<Rightarrow> string" where
  "trim s = rev (dropWhile isWhiteSpace (rev (dropWhile isWhiteSpace s)))"

definition lowerChar :: "char \<Rightarrow> char" where
  "lowerChar c =
     (case map_of (zip ''ABCDEFGHIJKLMNOPQRSTUVWXYZ'' ''abcdefghijklmnopqrstuvwxyz'') c of
        Some d \<Rightarrow> d
      | None \<Rightarrow> c)"

definition toLowerCase :: "string \<Rightarrow> string" where
  "toLowerCase s = map lowerChar s"

definition startsWith :: "string \<Rightarrow> string \<Rightarrow> bool" where
  "startsWith s p = (take (length p) s = p)"

fun includes_str :: "string \<Rightarrow> string \<Rightarrow> bool" where
  "includes_str [] p = (p = [])"
| "includes_str (c # cs) p = (startsWith (c # cs) p \<or> includes_str cs p)"

text \<open>\<open>xs.join(sep)\<close> of an array of strings.\<close>

fun join :: "string \<Rightarrow> string list \<Rightarrow> string" where
  "join sep [] = []"
| "join sep [x] = x"
| "join sep (x # y # ys) = x @ sep @ join sep (y # ys)"

text \<open>The decimal digits of a natural number, as \<open>String(n)\<close> prints them.\<close>

definition digitChar :: "nat \<Rightarrow> char" where
  "digitChar d = ''0123456789'' ! d"

fun showNat :: "nat \<Rightarrow> string" where
  "showNat n = (if n < 10 then [digitChar n] else showNat (n div 10) @ [digitChar (n mod 10)])"

declare showNat.simps [simp del]

subsection \<open>Numbers\<close>

text \<open>
  A JavaScript number is a double; it is modelled by the rational it denotes. Counters
  and timestamps are integers below \<open>2^53\<close>, which are doubles, and are kept as \<open>nat\<close>
  and \<open>int\<close>. \<open>toDouble\<close> takes the exact result of an operation to the nearest
  double: 53 significant bits, a tie going to the even significand. The exponent range
  is not part of the model (no overflow to \<open>Infinity\<close>, no subnormal numbers); the
  numbers computed here, ratios of counters and costs per token, stay far inside it.
\<close>

function bitLength :: "int \<Rightarrow> nat" where
  "bitLength n = (if n \<le> 0 then 0 else Suc (bitLength (n div 2)))"
  by pat_completeness auto
termination
  by (relation "measure nat") auto

declare bitLength.simps [simp del]

text \<open>For \<open>x > 0\<close>: the power of two \<open>2^e\<close> with \<open>2^e \<le> x < 2^(e+1)\<close>.\<close>

definition binade :: "rat \<Rightarrow> rat" where
  "binade x =
     (if 1 \<le> x then 2 ^ (bitLength \<lfloor>x\<rfloor> - 1)
      else 1 / 2 ^ bitLength (\<lceil>1 / x\<rceil> - 1))"

definition roundHalfEven :: "rat \<Rightarrow> int" where
  "roundHalfEven y =
     (let f = \<lfloor>y\<rfloor>; d = y - of_int f in
      if d < 1 / 2 then f else if 1 / 2 < d then f + 1 else if even f then f else f + 1)"

definition toDouble :: "rat \<Rightarrow> rat" where
  "toDouble x =
     (if x = 0 then 0
      else let u = binade \<bar>x\<bar> / 2 ^ 52 in sgn x * of_int (roundHalfEven (\<bar>x\<bar> / u)) * u)"

text \<open>The operators \<open>+\<close>, \<open>*\<close> and \<open>/\<close> on doubles (the divisor is not zero where \<open>/\<close> is used).\<close>

definition dadd :: "rat \<Rightarrow> rat \<Rightarrow> rat" where
  "dadd a b = toDouble (a + b)"

definition dmul :: "rat \<Rightarrow> rat \<Rightarrow> rat" where
  "dmul a b = toDouble (a * b)"

definition ddiv :: "rat \<Rightarrow> rat \<Rightarrow> rat" where
  "ddiv a b = toDouble (a / b)"

text \<open>
  \<open>x.toFixed(f)\<close> for \<open>\<bar>x\<bar> < 10^21\<close>: the integer \<open>n\<close> with \<open>n / 10^f\<close> nearest to
  the exact value of \<open>\<bar>x\<bar>\<close> (the larger one on a tie), printed with \<open>f\<close> fraction
  digits, after a minus sign when \<open>x < 0\<close>.
\<close>

definition padLeft :: "nat \<Rightarrow> string \<Rightarrow> string" where
  "padLeft f s = replicate (f - length s) CHR ''0'' @ s"

definition toFixedDigits :: "nat \<Rightarrow> rat \<Rightarrow> string" where
  "toFixedDigits f x =
     (let n = nat \<lfloor>x * 10 ^ f + 1 / 2\<rfloor> in
      if f = 0 then showNat n
      else showNat (n div 10 ^ f) @ ''.'' @ padLeft f (showNat (n mod 10 ^ f)))"

definition toFixed :: "nat \<Rightarrow> rat \<Rightarrow> string" where
  "toFixed f x = (if x < 0 then ''-'' @ toFixedDigits f (- x) else toFixedDigits f x)"

datatype jsval = JNum rat | JStr string


section \<open>Configuration (config.js)\<close>

record config =
  GEMINI_API_KEYS :: "string list"
  GEMINI_API_KEY :: "string option"
  ENABLE_SUGGESTIONS :: bool
  MIN_INPUT_LENGTH :: nat
  MAX_SUGGESTION_LENGTH :: nat
  MAX_DAILY_REQUESTS :: nat
  REQUEST_COOLDOWN :: int
  ENABLE_CACHE :: bool
  CACHE_DURATION :: int
  MAX_CACHE_SIZE :: nat

text \<open>The values of config.js, with a pool of credentials taken from the environment.\<close>

definition config_js :: "string list \<Rightarrow> config" where
  "config_js keys =
     \<lparr>GEMINI_API_KEYS = keys, GEMINI_API_KEY = None, ENABLE_SUGGESTIONS = True,
      MIN_INPUT_LENGTH = 3, MAX_SUGGESTION_LENGTH = 30, MAX_DAILY_REQUESTS = 100,
      REQUEST_COOLDOWN = 5000, ENABLE_CACHE = True, CACHE_DURATION = 3600000,
      MAX_CACHE_SIZE = 1000\<rparr>"


section \<open>CacheManager (cache-manager.js)\<close>

subsection \<open>The insertion-ordered \<open>Map\<close>\<close>

text \<open>
  A JavaScript \<open>Map\<close> iterates in insertion order, and \<open>set\<close> on a key that is present
  replaces the value where it stands: an association list with one pair per key.
\<close>

type_synonym ('k, 'v) jsmap = "('k \<times> 'v) list"

definition Map_get :: "('k, 'v) jsmap \<Rightarrow> 'k \<Rightarrow> 'v option" where
  "Map_get m k = map_of m k"

fun Map_set :: "('k, 'v) jsmap \<Rightarrow> 'k \<Rightarrow> 'v \<Rightarrow> ('k, 'v) jsmap" where
  "Map_set [] k v = [(k, v)]"
| "Map_set (p # ps) k v = (if fst p = k then (k, v) # ps else p # Map_set ps k v)"

definition Map_delete :: "('k, 'v) jsmap \<Rightarrow> 'k \<Rightarrow> ('k, 'v) jsmap" where
  "Map_delete m k = filter (\<lambda>p. fst p \<noteq> k) m"

definition Map_size :: "('k, 'v) jsmap \<Rightarrow> nat" where
  "Map_size m = length m"

definition Map_keys :: "('k, 'v) jsmap \<Rightarrow> 'k list" where
  "Map_keys m = map fst m"

text \<open>\<open>m.keys().next().value\<close>: the first key, \<open>undefined\<close> on an empty map.\<close>

definition Map_first_key :: "('k, 'v) jsmap \<Rightarrow> 'k option" where
  "Map_first_key m = (case m of [] \<Rightarrow> None | p # _ \<Rightarrow> Some (fst p))"

subsection \<open>State\<close>

record cacheEntry =
  suggestion :: string
  timestamp :: int

record usageStats =
  totalRequests :: nat
  cachedHits :: nat
  dailyRequests :: nat
  lastReset :: string
  costEstimate :: rat

text \<open>
  The object's three fields, and the two files it writes: \<open>cacheFile\<close> is
  suggestion-cache.json and \<open>usageFile\<close> is usage.json (\<open>None\<close>: no such file).
  \<open>diskWritable\<close> says whether \<open>fs.writeFile\<close> succeeds; a failed write is caught and
  leaves the file as it was.
\<close>

record CacheManager =
  cache :: "(string, cacheEntry) jsmap"
  usageStats :: usageStats
  lastRequestTime :: int
  cacheFile :: "(string, cacheEntry) jsmap option"
  usageFile :: "usageStats option"
  diskWritable :: bool

text \<open>The constructor's state, before \<open>loadCache\<close> and \<open>loadUsageStats\<close> have read the files.\<close>

definition freshUsageStats :: "string \<Rightarrow> usageStats" where
  "freshUsageStats today =
     \<lparr>totalRequests = 0, cachedHits = 0, dailyRequests = 0, lastReset = today,
      costEstimate = 0\<rparr>"

subsection \<open>Persistence\<close>

text \<open>
  The cache file is a JSON object. \<open>saveCache\<close> copies the map into an object and
  \<open>loadCache\<close> reads one with \<open>Object.entries\<close>; an object lists its array-index keys
  (canonical decimal numerals below \<open>2^32 - 1\<close>) first, in ascending numeric order, and
  then its other keys in the order they were added. \<open>cacheFile\<close> holds the members in
  the order of the file's text.
\<close>

definition digitValue :: "char \<Rightarrow> int" where
  "digitValue c = int (length (takeWhile (\<lambda>d. d \<noteq> c) ''0123456789''))"

definition readNat :: "string \<Rightarrow> int" where
  "readNat k = foldl (\<lambda>n c. 10 * n + digitValue c) 0 k"

definition isArrayIndex :: "string \<Rightarrow> bool" where
  "isArrayIndex k =
     (k \<noteq> [] \<and> list_all (\<lambda>c. c \<in> set ''0123456789'') k \<and>
      (k = ''0'' \<or> hd k \<noteq> CHR ''0'') \<and> readNat k < 2 ^ 32 - 1)"

definition objectEntries :: "(string, 'v) jsmap \<Rightarrow> (string, 'v) jsmap" where
  "objectEntries m =
     sort_key (\<lambda>p. readNat (fst p)) (filter (\<lambda>p. isArrayIndex (fst p)) m) @
     filter (\<lambda>p. \<not> isArrayIndex (fst p)) m"

definition saveCache :: "CacheManager \<Rightarrow> CacheManager" where
  "saveCache s = (if diskWritable s then s\<lparr>cacheFile := Some (objectEntries (cache s))\<rparr> else s)"

definition saveUsageStats :: "CacheManager \<Rightarrow> CacheManager" where
  "saveUsageStats s = (if diskWritable s then s\<lparr>usageFile := Some (usageStats s)\<rparr> else s)"

text \<open>
  \<open>loadUsageStats\<close>: \<open>today\<close> is \<open>new Date().toDateString()\<close>. A missing or unreadable
  file leaves the record of the constructor in place.
\<close>

definition resetIfNewDay :: "string \<Rightarrow> usageStats \<Rightarrow> usageStats" where
  "resetIfNewDay today u =
     (if lastReset u \<noteq> today then u\<lparr>dailyRequests := 0, lastReset := today\<rparr> else u)"

definition loadUsageStats :: "string \<Rightarrow> CacheManager \<Rightarrow> CacheManager" where
  "loadUsageStats today s =
     (case usageFile s of
        None \<Rightarrow> s
      | Some u \<Rightarrow> s\<lparr>usageStats := resetIfNewDay today u\<rparr>)"

text \<open>
  \<open>loadCache\<close>: \<open>now\<close> is \<open>Date.now()\<close>; only entries that have not expired are
  loaded, in the order of \<open>Object.entries\<close> (the file's member names are distinct).
\<close>

definition loadCache :: "config \<Rightarrow> int \<Rightarrow> CacheManager \<Rightarrow> CacheManager" where
  "loadCache cfg now s =
     (case cacheFile s of
        None \<Rightarrow> s
      | Some cacheData \<Rightarrow>
          s\<lparr>cache := fold (\<lambda>(key, v) m.
                          if now - timestamp v < CACHE_DURATION cfg then Map_set m key v else m)
                        (objectEntries cacheData) (cache s)\<rparr>)"

subsection \<open>Cache operations\<close>

definition getCacheKey :: "string \<Rightarrow> string" where
  "getCacheKey input = toLowerCase (trim input)"

definition get :: "config \<Rightarrow> int \<Rightarrow> CacheManager \<Rightarrow> string \<Rightarrow> string option \<times> CacheManager" where
  "get cfg now s input =
     (if \<not> ENABLE_CACHE cfg then (None, s)
      else
        let key = getCacheKey input in
        case Map_get (cache s) key of
          None \<Rightarrow> (None, s)
        | Some cached \<Rightarrow>
            if now - timestamp cached < CACHE_DURATION cfg
            then (Some (suggestion cached),
                  s\<lparr>usageStats := (usageStats s)\<lparr>cachedHits := cachedHits (usageStats s) + 1\<rparr>\<rparr>)
            else (None, s))"

definition evictOldest :: "config \<Rightarrow> (string, cacheEntry) jsmap \<Rightarrow> (string, cacheEntry) jsmap" where
  "evictOldest cfg m =
     (if Map_size m \<ge> MAX_CACHE_SIZE cfg
      then (case Map_first_key m of None \<Rightarrow> m | Some oldestKey \<Rightarrow> Map_delete m oldestKey)
      else m)"

definition set_cm :: "config \<Rightarrow> int \<Rightarrow> CacheManager \<Rightarrow> string \<Rightarrow> string \<Rightarrow> CacheManager" where
  "set_cm cfg now s input sugg =
     (if \<not> ENABLE_CACHE cfg then s
      else
        let key = getCacheKey input;
            m = evictOldest cfg (cache s)
        in saveCache (s\<lparr>cache := Map_set m key \<lparr>suggestion = sugg, timestamp = now\<rparr>\<rparr>))"

definition clearCache :: "CacheManager \<Rightarrow> CacheManager" where
  "clearCache s = saveCache (s\<lparr>cache := []\<rparr>)"

subsection \<open>Usage governor\<close>

definition canMakeRequest :: "config \<Rightarrow> int \<Rightarrow> CacheManager \<Rightarrow> bool" where
  "canMakeRequest cfg now s =
     (if dailyRequests (usageStats s) \<ge> MAX_DAILY_REQUESTS cfg then False
      else if now - lastRequestTime s < REQUEST_COOLDOWN cfg then False
      else True)"

text \<open>
  \<open>recordRequest\<close>: the literals \<open>0.000075\<close> and \<open>0.0003\<close> are the doubles nearest to
  them; \<open>1000000\<close> is a double.
\<close>

definition recordRequest :: "int \<Rightarrow> CacheManager \<Rightarrow> nat \<Rightarrow> CacheManager" where
  "recordRequest now s tokenCount =
     (let u = usageStats s;
          inputCost = ddiv (dmul (of_nat tokenCount) (toDouble (75 / 1000000))) 1000000;
          outputCost = ddiv (dmul (of_nat tokenCount) (toDouble (3 / 10000))) 1000000;
          u' = u\<lparr>totalRequests := totalRequests u + 1,
                 dailyRequests := dailyRequests u + 1,
                 costEstimate := dadd (costEstimate u) (dadd inputCost outputCost)\<rparr>
      in saveUsageStats (s\<lparr>usageStats := u', lastRequestTime := now\<rparr>))"

text \<open>
  The object \<open>getUsageStats\<close> returns: the five fields of the usage record (prefixed
  here, since a field name belongs to one record) and the two derived ones.
\<close>

record stats =
  st_totalRequests :: nat
  st_cachedHits :: nat
  st_dailyRequests :: nat
  st_lastReset :: string
  st_costEstimate :: rat
  cacheHitRate :: jsval
  estimatedCost :: string

definition getUsageStats :: "CacheManager \<Rightarrow> stats" where
  "getUsageStats s =
     (let u = usageStats s in
      \<lparr>st_totalRequests = totalRequests u,
       st_cachedHits = cachedHits u,
       st_dailyRequests = dailyRequests u,
       st_lastReset = lastReset u,
       st_costEstimate = costEstimate u,
       cacheHitRate =
         (if totalRequests u > 0
          then JStr (toFixed 1 (dmul (ddiv (of_nat (cachedHits u)) (of_nat (totalRequests u))) 100))
          else JNum 0),
       estimatedCost = toFixed 6 (costEstimate u)\<rparr>)"

text \<open>
  The hit rate as the code computes it, \<open>(cachedHits / totalRequests) * 100\<close> in
  doubles, and the number of tenths that \<open>toFixed(1)\<close> prints for it.
\<close>

definition percentDouble :: "usageStats \<Rightarrow> rat" where
  "percentDouble u = dmul (ddiv (of_nat (cachedHits u)) (of_nat (totalRequests u))) 100"

definition percentTenths :: "usageStats \<Rightarrow> nat" where
  "percentTenths u = nat \<lfloor>percentDouble u * 10 + 1 / 2\<rfloor>"

text \<open>
  The hit rate in the words of the specification: \<open>cachedHits / totalRequests\<close>, and
  \<open>0\<close> when \<open>totalRequests\<close> is \<open>0\<close>.
\<close>

definition spec_cacheHitRate :: "usageStats \<Rightarrow> rat" where
  "spec_cacheHitRate u =
     (if totalRequests u = 0 then 0 else of_nat (cachedHits u) / of_nat (totalRequests u))"

definition resetUsageStats :: "string \<Rightarrow> CacheManager \<Rightarrow> CacheManager" where
  "resetUsageStats today s = saveUsageStats (s\<lparr>usageStats := freshUsageStats today\<rparr>)"

text \<open>
  The constructor: \<open>today\<close> is \<open>new Date().toDateString()\<close>; the files and the disk
  are what the process finds. \<open>loadCache\<close> and \<open>loadUsageStats\<close> are started by the
  constructor and finish later, so they are separate steps here.
\<close>

definition newCacheManager ::
  "string \<Rightarrow> (string, cacheEntry) jsmap option \<Rightarrow> usageStats option \<Rightarrow> bool \<Rightarrow> CacheManager" where
  "newCacheManager today cf uf w =
     \<lparr>cache = [], usageStats = freshUsageStats today, lastRequestTime = 0,
      cacheFile = cf, usageFile = uf, diskWritable = w\<rparr>"

text \<open>A sequence of \<open>set\<close> calls \<open>(now, input, suggestion)\<close>, in order.\<close>

definition set_all :: "config \<Rightarrow> CacheManager \<Rightarrow> (int \<times> string \<times> string) list \<Rightarrow> CacheManager" where
  "set_all cfg s ops = fold (\<lambda>(now, input, sugg) s'. set_cm cfg now s' input sugg) ops s"

definition opKey :: "int \<times> string \<times> string \<Rightarrow> string" where
  "opKey op = getCacheKey (fst (snd op))"


section \<open>ContextManager (context-manager.js)\<close>

datatype error = Exhausted | ReferenceError | TypeError

record fileInfo =
  fname :: string
  isDirectory :: bool

text \<open>
  \<open>{ isGitRepo: false }\<close> and \<open>{ hasPackageJson: false }\<close> leave the other fields
  undefined; no function reads them then, and they are empty here. The fields that no
  function below reads (\<open>size\<close>, \<open>modified\<close>, \<open>changes\<close>, the dependency lists) are
  left out; \<open>scripts\<close> holds the script names, which is all that is counted.
\<close>

record gitContext =
  isGitRepo :: bool
  hasChanges :: bool
  currentBranch :: string

record nodeContext =
  hasPackageJson :: bool
  pname :: "string option"
  scripts :: "string list"

record ContextManager =
  currentDirectory :: string
  recentCommands :: "string list"
  fileContext :: "fileInfo list"
  gitCtx :: "gitContext option"
  nodeCtx :: "nodeContext option"
  maxRecentCommands :: nat
  maxFileContext :: nat

definition newContextManager :: "string \<Rightarrow> ContextManager" where
  "newContextManager dir =
     \<lparr>currentDirectory = dir, recentCommands = [], fileContext = [], gitCtx = None,
      nodeCtx = None, maxRecentCommands = 10, maxFileContext = 20\<rparr>"

text \<open>
  What the probes of \<open>updateContext\<close> find: the working directory; the directory
  listing, each name with the result of \<open>stat\<close> (\<open>None\<close>: it failed); the output of
  \<open>git status --porcelain\<close> and \<open>git branch --show-current\<close> (\<open>None\<close>: a command
  failed); the parsed package.json (\<open>None\<close>: missing or not JSON).
\<close>

record packageData =
  pkg_name :: "string option"
  pkg_scripts :: "string list option"

record env =
  cwd :: string
  readdir :: "(string \<times> bool option) list option"
  gitOutput :: "(string \<times> string) option"
  packageJson :: "packageData option"

definition updateFileContext :: "env \<Rightarrow> ContextManager \<Rightarrow> ContextManager" where
  "updateFileContext e cm =
     (case readdir e of
        None \<Rightarrow> cm\<lparr>fileContext := []\<rparr>
      | Some files \<Rightarrow>
          cm\<lparr>fileContext :=
               map (\<lambda>(file, st). case st of
                      Some d \<Rightarrow> \<lparr>fname = file, isDirectory = d\<rparr>
                    | None \<Rightarrow> \<lparr>fname = file, isDirectory = False\<rparr>)
                 (take (maxFileContext cm) files)\<rparr>)"

definition updateGitContext :: "env \<Rightarrow> ContextManager \<Rightarrow> ContextManager" where
  "updateGitContext e cm =
     (case gitOutput e of
        Some (stdout, branchOutput) \<Rightarrow>
          cm\<lparr>gitCtx := Some \<lparr>isGitRepo = True, hasChanges = (length (trim stdout) > 0),
                               currentBranch = trim branchOutput\<rparr>\<rparr>
      | None \<Rightarrow>
          cm\<lparr>gitCtx := Some \<lparr>isGitRepo = False, hasChanges = False, currentBranch = []\<rparr>\<rparr>)"

definition updateNodeContext :: "env \<Rightarrow> ContextManager \<Rightarrow> ContextManager" where
  "updateNodeContext e cm =
     (case packageJson e of
        Some packageData \<Rightarrow>
          cm\<lparr>nodeCtx := Some \<lparr>hasPackageJson = True, pname = pkg_name packageData,
                                scripts = (case pkg_scripts packageData of
                                             Some sc \<Rightarrow> sc | None \<Rightarrow> [])\<rparr>\<rparr>
      | None \<Rightarrow> cm\<lparr>nodeCtx := Some \<lparr>hasPackageJson = False, pname = None, scripts = []\<rparr>\<rparr>)"

definition updateContext :: "env \<Rightarrow> ContextManager \<Rightarrow> ContextManager" where
  "updateContext e cm =
     updateNodeContext e (updateGitContext e (updateFileContext e (cm\<lparr>currentDirectory := cwd e\<rparr>)))"

definition addRecentCommand :: "ContextManager \<Rightarrow> string \<Rightarrow> ContextManager" where
  "addRecentCommand cm command =
     (let rc = command # recentCommands cm in
      if length rc > maxRecentCommands cm
      then cm\<lparr>recentCommands := take (maxRecentCommands cm) rc\<rparr>
      else cm\<lparr>recentCommands := rc\<rparr>)"

text \<open>\<open>path.basename\<close> on a POSIX path: the part after the last slash, trailing slashes dropped.\<close>

definition basename :: "string \<Rightarrow> string" where
  "basename p =
     rev (takeWhile (\<lambda>c. c \<noteq> CHR ''/'') (dropWhile (\<lambda>c. c = CHR ''/'') (rev p)))"

record contextSummary =
  directory :: string
  fullPath :: string
  cs_recentCommands :: "string list"
  fileCount :: nat
  directories :: nat
  files :: nat
  git :: "gitContext option"
  node :: "nodeContext option"

definition getContextSummary :: "ContextManager \<Rightarrow> contextSummary" where
  "getContextSummary cm =
     \<lparr>directory = basename (currentDirectory cm),
      fullPath = currentDirectory cm,
      cs_recentCommands = take 3 (recentCommands cm),
      fileCount = length (fileContext cm),
      directories = length (filter (\<lambda>f. isDirectory f) (fileContext cm)),
      files = length (filter (\<lambda>f. \<not> isDirectory f) (fileContext cm)),
      git = gitCtx cm,
      node = nodeCtx cm\<rparr>"

definition dq :: string where
  "dq = [CHR 0x22]"

definition showName :: "string option \<Rightarrow> string" where
  "showName n = (case n of Some x \<Rightarrow> x | None \<Rightarrow> ''undefined'')"

definition gitPart :: "contextSummary \<Rightarrow> string" where
  "gitPart context =
     (case git context of
        Some g \<Rightarrow>
          if isGitRepo g
          then ''Git repo on branch '' @ dq @ currentBranch g @ dq @ ''. '' @
               (if hasChanges g then ''Has uncommitted changes. '' else [])
          else []
      | None \<Rightarrow> [])"

definition nodePart :: "contextSummary \<Rightarrow> string" where
  "nodePart context =
     (case node context of
        Some n \<Rightarrow>
          if hasPackageJson n
          then ''Node.js project '' @ dq @ showName (pname n) @ dq @ ''. '' @
               (let scriptCount = length (scripts n) in
                if scriptCount > 0 then ''Has '' @ showNat scriptCount @ '' npm scripts. '' else [])
          else []
      | None \<Rightarrow> [])"

definition recentPart :: "contextSummary \<Rightarrow> string" where
  "recentPart context =
     (if length (cs_recentCommands context) > 0
      then ''Recent commands: '' @ join '', '' (cs_recentCommands context) @ ''. ''
      else [])"

definition filePart :: "contextSummary \<Rightarrow> string" where
  "filePart context =
     (if files context > 0 \<or> directories context > 0
      then ''Directory has '' @ showNat (files context) @ '' files, '' @
           showNat (directories context) @ '' folders. ''
      else [])"

text \<open>
  \<open>buildContextPrompt\<close>. Its last statement reads \<open>config.MAX_SUGGESTION_LENGTH\<close>; the
  argument \<open>scope\<close> is what the identifier \<open>config\<close> is bound to in the module
  (\<open>None\<close>: not bound, and reading it throws a ReferenceError). The four parts above
  are the four conditional blocks of the function, in its order.
\<close>

definition buildContextPrompt :: "config option \<Rightarrow> ContextManager \<Rightarrow> string \<Rightarrow> error + string" where
  "buildContextPrompt scope cm userInput =
     (let context = getContextSummary cm;
          prompt = ''Context: Working in '' @ dq @ directory context @ dq @ '' directory. '' @
                   gitPart context @ nodePart context @ recentPart context @ filePart context @
                   ''User input: '' @ dq @ userInput @ dq @ ''. ''
      in case scope of
           None \<Rightarrow> Inl ReferenceError
         | Some cfg \<Rightarrow>
             Inr (prompt @ ''Suggest the most relevant command completion ('' @
                  showNat (MAX_SUGGESTION_LENGTH cfg) @ '' chars max).''))"

text \<open>
  context-manager.js requires fs, path, child_process, util and chalk, and nothing else:
  the identifier \<open>config\<close> is not bound in it.
\<close>

definition context_manager_scope :: "config option" where
  "context_manager_scope = None"

definition getDirectoryType :: "ContextManager \<Rightarrow> string" where
  "getDirectoryType cm =
     (if (case nodeCtx cm of Some n \<Rightarrow> hasPackageJson n | None \<Rightarrow> False) then ''nodejs''
      else if (case gitCtx cm of Some g \<Rightarrow> isGitRepo g | None \<Rightarrow> False) then ''git''
      else if list_ex (\<lambda>f. includes_str (fname f) ''.py'') (fileContext cm) then ''python''
      else if list_ex (\<lambda>f. includes_str (fname f) ''.java'') (fileContext cm) then ''java''
      else if list_ex (\<lambda>f. includes_str (fname f) ''.cpp'' \<or> includes_str (fname f) ''.c'')
                (fileContext cm) then ''cpp''
      else if list_ex (\<lambda>f. includes_str (fname f) ''.html'' \<or> includes_str (fname f) ''.js'')
                (fileContext cm) then ''web''
      else ''general'')"

definition commands :: "(string \<times> string list) list" where
  "commands =
     [(''nodejs'', [''npm install'', ''npm start'', ''npm run dev'', ''npm test'', ''npm run build'']),
      (''git'', [''git status'', ''git add .'', ''git commit'', ''git push'', ''git pull'']),
      (''python'', [''python'', ''pip install'', ''python -m venv'', ''python manage.py'']),
      (''java'', [''javac'', ''java'', ''mvn'', ''gradle'']),
      (''cpp'', [''g++'', ''make'', ''cmake'', ''./a.out'']),
      (''web'', [''npm install'', ''npm start'', ''npx'', ''yarn'']),
      (''general'', [''ls'', ''cd'', ''mkdir'', ''rm'', ''cp'', ''mv''])]"

definition getRelevantCommands :: "ContextManager \<Rightarrow> string list" where
  "getRelevantCommands cm =
     (case map_of commands (getDirectoryType cm) of
        Some cs \<Rightarrow> cs
      | None \<Rightarrow> [''ls'', ''cd'', ''mkdir'', ''rm'', ''cp'', ''mv''])"

datatype contextual = Direct string | WithPrompt string

definition matchingCommands :: "ContextManager \<Rightarrow> string \<Rightarrow> string list" where
  "matchingCommands cm userInput =
     filter (\<lambda>cmd. startsWith (toLowerCase cmd) (toLowerCase userInput)) (getRelevantCommands cm)"

definition getContextualSuggestion ::
  "config option \<Rightarrow> env \<Rightarrow> ContextManager \<Rightarrow> string \<Rightarrow> (error + contextual) \<times> ContextManager" where
  "getContextualSuggestion scope e cm userInput =
     (let cm' = updateContext e cm in
      case matchingCommands cm' userInput of
        m # _ \<Rightarrow> (Inr (Direct m), cm')
      | [] \<Rightarrow>
          (case buildContextPrompt scope cm' userInput of
             Inl err \<Rightarrow> (Inl err, cm')
           | Inr contextPrompt \<Rightarrow> (Inr (WithPrompt contextPrompt), cm')))"


section \<open>OptimizedGeminiService with credential rotation\<close>

subsection \<open>The endpoint's responses\<close>

text \<open>
  The JSON of a response, as far as the service reads it. Every field may be missing
  (\<open>None\<close>), and an element of \<open>candidates\<close> may be \<open>null\<close>.
\<close>

record part =
  text_of :: "string option"

record content =
  parts :: "part list option"

record candidate =
  content :: "content option"

record usageMetadata =
  totalTokenCount :: "nat option"

record responseData =
  candidates :: "candidate option list option"
  usageMetadata :: "usageMetadata option"

record response =
  rdata :: "responseData option"

text \<open>
  A credential is a string, or \<open>undefined\<close> when the pool falls back to a
  \<open>GEMINI_API_KEY\<close> that config.js does not define.
\<close>

type_synonym apikey = "string option"

text \<open>
  \<open>axios.post\<close> for one payload: the outcome of the attempt with the given number under
  the given credential, \<open>None\<close> when the call throws (network, status code, timeout).
\<close>

type_synonym post = "nat \<Rightarrow> apikey \<Rightarrow> response option"

subsection \<open>State and credential rotation\<close>

record service =
  apiKeys :: "apikey list"
  currentKeyIndex :: nat
  cacheManager :: CacheManager
  contextManager :: ContextManager

definition newService :: "config \<Rightarrow> CacheManager \<Rightarrow> ContextManager \<Rightarrow> service" where
  "newService cfg cmgr ctx =
     \<lparr>apiKeys = (if length (GEMINI_API_KEYS cfg) > 0 then map Some (GEMINI_API_KEYS cfg)
                 else [GEMINI_API_KEY cfg]),
      currentKeyIndex = 0, cacheManager = cmgr, contextManager = ctx\<rparr>"

definition getCurrentApiKey :: "service \<Rightarrow> apikey" where
  "getCurrentApiKey sv =
     (if currentKeyIndex sv < length (apiKeys sv) then apiKeys sv ! currentKeyIndex sv else None)"

definition rotateApiKey :: "service \<Rightarrow> service" where
  "rotateApiKey sv = sv\<lparr>currentKeyIndex := (currentKeyIndex sv + 1) mod length (apiKeys sv)\<rparr>"

text \<open>The cursor after \<open>i\<close> rotations.\<close>

definition cursorAt :: "service \<Rightarrow> nat \<Rightarrow> nat" where
  "cursorAt sv i = (currentKeyIndex sv + i) mod length (apiKeys sv)"

text \<open>
  \<open>postWithKeyRotation\<close> returns the response or the error, the service with its cursor,
  and the requests it sent: the cursor position of each call of \<open>axios.post\<close>, in order.
\<close>

function postWithKeyRotation ::
  "post \<Rightarrow> service \<Rightarrow> nat \<Rightarrow> (error + response) \<times> service \<times> nat list" where
  "postWithKeyRotation p sv attempt =
     (if attempt \<ge> length (apiKeys sv) then (Inl Exhausted, sv, [])
      else
        case p attempt (getCurrentApiKey sv) of
          Some r \<Rightarrow> (Inr r, sv, [currentKeyIndex sv])
        | None \<Rightarrow>
            (case postWithKeyRotation p (rotateApiKey sv) (attempt + 1) of
               (res, sv', sent) \<Rightarrow> (res, sv', currentKeyIndex sv # sent)))"
  by pat_completeness auto
termination
  by (relation "measure (\<lambda>(p, sv, attempt). length (apiKeys sv) - attempt)")
     (auto simp: rotateApiKey_def)

declare postWithKeyRotation.simps [simp del]

subsection \<open>Suggestions\<close>

text \<open>The guard \<open>response.data && response.data.candidates && response.data.candidates[0]\<close>.\<close>

definition firstCandidate :: "response \<Rightarrow> candidate option" where
  "firstCandidate r =
     (case rdata r of
        None \<Rightarrow> None
      | Some d \<Rightarrow>
          (case candidates d of
             None \<Rightarrow> None
           | Some cs \<Rightarrow> (case cs of [] \<Rightarrow> None | c # _ \<Rightarrow> c)))"

text \<open>\<open>candidate.content.parts[0].text\<close>, a TypeError where a step reads a property of \<open>undefined\<close>.\<close>

definition candidateText :: "candidate \<Rightarrow> error + string" where
  "candidateText c =
     (case content c of
        None \<Rightarrow> Inl TypeError
      | Some ct \<Rightarrow>
          (case parts ct of
             None \<Rightarrow> Inl TypeError
           | Some ps \<Rightarrow>
               (case ps of
                  [] \<Rightarrow> Inl TypeError
                | pt # _ \<Rightarrow> (case text_of pt of None \<Rightarrow> Inl TypeError | Some t \<Rightarrow> Inr t))))"

text \<open>\<open>response.data.usageMetadata?.totalTokenCount || 0\<close>, read once the guard has passed.\<close>

definition tokenCountOf :: "response \<Rightarrow> nat" where
  "tokenCountOf r =
     (case rdata r of
        None \<Rightarrow> 0
      | Some d \<Rightarrow>
          (case usageMetadata d of
             None \<Rightarrow> 0
           | Some um \<Rightarrow> (case totalTokenCount um of None \<Rightarrow> 0 | Some n \<Rightarrow> n)))"

text \<open>The times \<open>Date.now()\<close> returns in \<open>get\<close>, \<open>canMakeRequest\<close>, \<open>set\<close> and \<open>recordRequest\<close>.\<close>

record clock =
  t_get :: int
  t_check :: int
  t_set :: int
  t_record :: int

text \<open>
  What \<open>getCommandSuggestion\<close> does with a response of the endpoint: lines 105 to 127
  of the rotating service, and the same statements in the service with one credential
  (gemini-service-optimized.js, lines 62 to 83). A TypeError is caught by the function's
  \<open>catch\<close>.
\<close>

definition acceptResponse ::
  "config \<Rightarrow> clock \<Rightarrow> CacheManager \<Rightarrow> string \<Rightarrow> response \<Rightarrow> string option \<times> CacheManager" where
  "acceptResponse cfg tm cmgr userInput r =
     (case firstCandidate r of
        None \<Rightarrow> (None, cmgr)
      | Some c \<Rightarrow>
          (case candidateText c of
             Inl err \<Rightarrow> (None, cmgr)
           | Inr t \<Rightarrow>
               (let suggestion = trim t;
                    finalSuggestion = take (MAX_SUGGESTION_LENGTH cfg) suggestion;
                    cmgr1 = set_cm cfg (t_set tm) cmgr userInput finalSuggestion;
                    cmgr2 = recordRequest (t_record tm) cmgr1 (tokenCountOf r)
                in (Some finalSuggestion, cmgr2))))"

text \<open>
  Lines 91 to 127 of \<open>getCommandSuggestion\<close>: the request is sent with rotation and the
  response handled. An exhausted pool throws, which the function's \<open>catch\<close> turns into
  \<open>null\<close>.
\<close>

definition dispatchAndAccept ::
  "config \<Rightarrow> clock \<Rightarrow> post \<Rightarrow> service \<Rightarrow> string \<Rightarrow> string option \<times> service \<times> nat list" where
  "dispatchAndAccept cfg tm p sv userInput =
     (case postWithKeyRotation p sv 0 of
        (Inl err, sv', sent) \<Rightarrow> (None, sv', sent)
      | (Inr r, sv', sent) \<Rightarrow>
          (case acceptResponse cfg tm (cacheManager sv') userInput r of
             (res, cmgr') \<Rightarrow> (res, sv'\<lparr>cacheManager := cmgr'\<rparr>, sent)))"

text \<open>\<open>if (cachedSuggestion)\<close>: \<open>null\<close> and the empty string are falsy.\<close>

definition truthy :: "string option \<Rightarrow> bool" where
  "truthy v = (case v of Some c \<Rightarrow> c \<noteq> [] | None \<Rightarrow> False)"

text \<open>
  \<open>getCommandSuggestion\<close>: \<open>None\<close> is \<open>null\<close>. The arguments are the configuration, the
  binding of \<open>config\<close> in context-manager.js, what the probes find, the endpoint's
  behaviour for a prompt, and the clock. The result carries the requests sent.
\<close>

definition getCommandSuggestion ::
  "config \<Rightarrow> config option \<Rightarrow> env \<Rightarrow> (string \<Rightarrow> post) \<Rightarrow> clock \<Rightarrow> service \<Rightarrow> string
     \<Rightarrow> string option \<times> service \<times> nat list" where
  "getCommandSuggestion cfg scope e net tm sv userInput =
     (if \<not> ENABLE_SUGGESTIONS cfg then (None, sv, [])
      else if length (trim userInput) < MIN_INPUT_LENGTH cfg then (None, sv, [])
      else
        case get cfg (t_get tm) (cacheManager sv) userInput of
          (cachedSuggestion, cmgr1) \<Rightarrow>
            let sv1 = sv\<lparr>cacheManager := cmgr1\<rparr> in
            if truthy cachedSuggestion then (cachedSuggestion, sv1, [])
            else if \<not> canMakeRequest cfg (t_check tm) cmgr1 then (None, sv1, [])
            else
              case getContextualSuggestion scope e (contextManager sv1) userInput of
                (contextualResult, ctx') \<Rightarrow>
                  let sv2 = sv1\<lparr>contextManager := ctx'\<rparr> in
                  case contextualResult of
                    Inl err \<Rightarrow> (None, sv2, [])
                  | Inr (Direct m) \<Rightarrow> (Some m, sv2, [])
                  | Inr (WithPrompt prompt) \<Rightarrow> dispatchAndAccept cfg tm (net prompt) sv2 userInput)"

section \<open>OptimizedGeminiService with one credential (gemini-service-optimized.js)\<close>

text \<open>
  The service of gemini-service-optimized.js: it sends one request with
  \<open>config.GEMINI_API_KEY\<close> and its own short prompt, and does not consult the context
  manager it constructs.
\<close>

record plainService =
  apiKey :: apikey
  ps_cacheManager :: CacheManager
  ps_contextManager :: ContextManager

definition newPlainService :: "config \<Rightarrow> CacheManager \<Rightarrow> ContextManager \<Rightarrow> plainService" where
  "newPlainService cfg cmgr ctx =
     \<lparr>apiKey = GEMINI_API_KEY cfg, ps_cacheManager = cmgr, ps_contextManager = ctx\<rparr>"





section \<open>Example states\<close>

text \<open>A configuration with room for two cache entries, and small caches built with \<open>set\<close>.\<close>

definition cfg2 :: config where
  "cfg2 = (config_js [])\<lparr>MAX_CACHE_SIZE := 2\<rparr>"

definition twoEntries :: CacheManager where
  "twoEntries = set_all cfg2 (newCacheManager ''Tue Nov 03 2026'' None None True)
                  [(0, ''aa'', ''x''), (1, ''bb'', ''y'')]"

definition threeSets :: "(int \<times> string \<times> string) list" where
  "threeSets = [(0, ''aa'', ''x''), (1, ''bb'', ''y''), (2, ''cc'', ''z'')]"

text \<open>
  A pool of three credentials with the cursor on the second, a well-formed response, and
  two behaviours of the endpoint: failing on the first two attempts, and failing always.
\<close>

definition threeKeys :: service where
  "threeKeys = (newService (config_js [''k0'', ''k1'', ''k2''])
                  (newCacheManager ''Tue Nov 03 2026'' None None True)
                  (newContextManager ''/home/user/project''))\<lparr>currentKeyIndex := 1\<rparr>"

definition okResponse :: "string \<Rightarrow> response" where
  "okResponse t =
     \<lparr>rdata = Some \<lparr>candidates = Some [Some \<lparr>content = Some \<lparr>parts = Some [\<lparr>text_of = Some t\<rparr>]\<rparr>\<rparr>],
                     usageMetadata = Some \<lparr>totalTokenCount = Some 12\<rparr>\<rparr>\<rparr>"

definition failTwice :: post where
  "failTwice i k = (if i < 2 then None else Some (okResponse ''git status''))"

definition failAlways :: post where
  "failAlways i k = None"

text \<open>
  Usage records: one hit in two requests; a record last reset on the previous day with
  the daily limit used up; and a manager whose only cache entry and usage record are on
  disk.
\<close>

definition halfHits :: CacheManager where
  "halfHits = (newCacheManager ''Tue Nov 03 2026'' None None True)
     \<lparr>usageStats := \<lparr>totalRequests = 2, cachedHits = 1, dailyRequests = 2,
                      lastReset = ''Tue Nov 03 2026'', costEstimate = 0\<rparr>\<rparr>"

definition yesterdayFull :: CacheManager where
  "yesterdayFull = (newCacheManager ''Mon Nov 02 2026'' None None True)
     \<lparr>usageStats := \<lparr>totalRequests = 100, cachedHits = 0, dailyRequests = 100,
                      lastReset = ''Mon Nov 02 2026'', costEstimate = 0\<rparr>,
      lastRequestTime := 1793577600000\<rparr>"

definition oneCached :: CacheManager where
  "oneCached = saveUsageStats (set_cm (config_js []) 0 (newCacheManager ''Tue Nov 03 2026'' None None True)
                 ''git st'' ''git status'')"

text \<open>
  A git repository without package.json, a service with one credential, a clock, two
  malformed responses, and an endpoint that answers every attempt with a given response.
\<close>

definition gitRepoEnv :: env where
  "gitRepoEnv = \<lparr>cwd = ''/home/user/project'',
                  readdir = Some [(''.git'', Some True), (''README.md'', Some False)],
                  gitOutput = Some ('' M README.md'', ''main''),
                  packageJson = None\<rparr>"

definition oneKey :: service where
  "oneKey = newService (config_js [''k0''])
              (newCacheManager ''Tue Nov 03 2026'' None None True)
              (newContextManager ''/home/user/project'')"

definition noon :: clock where
  "noon = \<lparr>t_get = 1793707200000, t_check = 1793707200001, t_set = 1793707200900,
            t_record = 1793707200901\<rparr>"



definition answer :: "response \<Rightarrow> post" where
  "answer r i k = Some r"

text \<open>
  The configuration of the repository's other config.js, which sets \<open>GEMINI_API_KEY\<close>
  and no list of keys; the service with one credential under it; and a usage record with
  23 hits in 80 requests.
\<close>

definition config_single :: "string \<Rightarrow> config" where
  "config_single k = (config_js [])\<lparr>GEMINI_API_KEY := Some k\<rparr>"

definition plainOne :: plainService where
  "plainOne = newPlainService (config_single ''k0'')
                (newCacheManager ''Tue Nov 03 2026'' None None True)
                (newContextManager ''/home/user/project'')"

definition hits23of80 :: CacheManager where
  "hits23of80 = (newCacheManager ''Tue Nov 03 2026'' None None True)
     \<lparr>usageStats := \<lparr>totalRequests = 80, cachedHits = 23, dailyRequests = 80,
                      lastReset = ''Tue Nov 03 2026'', costEstimate = 0\<rparr>\<rparr>"

text \<open>The service one second after a request, measured at the governor's check of \<open>noon\<close>.\<close>

definition justRequested :: service where
  "justRequested = oneKey\<lparr>cacheManager := (cacheManager oneKey)\<lparr>lastRequestTime := 1793707199000\<rparr>\<rparr>"


section \<open>Properties\<close>

subsection \<open>The ordered map and the cache\<close>

lemma arrayIndex_examples:
  "isArrayIndex ''10''" "isArrayIndex ''9''" "\<not> isArrayIndex ''007''" "\<not> isArrayIndex ''ls -la''"
  "readNat ''10'' = 10" "readNat ''9'' = 9"
  by (simp_all add: isArrayIndex_def readNat_def digitValue_def)

lemma objectEntries_example:
  "objectEntries [(''ls -la'', 1::nat), (''10'', 2), (''9'', 3), (''007'', 4)] =
     [(''9'', 3), (''10'', 2), (''ls -la'', 1), (''007'', 4)]"
  by (simp add: objectEntries_def arrayIndex_examples)

lemma Map_get_Map_set_same: "Map_get (Map_set m k v) k = Some v"
  by (induction m) (auto simp: Map_get_def)

lemma Map_get_Map_set_other: "k' \<noteq> k \<Longrightarrow> Map_get (Map_set m k v) k' = Map_get m k'"
  by (induction m) (auto simp: Map_get_def)

lemma Map_set_fresh: "k \<notin> set (Map_keys m) \<Longrightarrow> Map_set m k v = m @ [(k, v)]"
  by (induction m) (auto simp: Map_keys_def)

lemma Map_keys_Map_set_present: "k \<in> set (Map_keys m) \<Longrightarrow> Map_keys (Map_set m k v) = Map_keys m"
  by (induction m) (auto simp: Map_keys_def)

lemma Map_delete_first:
  "distinct (Map_keys (p # ps)) \<Longrightarrow> Map_delete (p # ps) (fst p) = ps"
  by (auto simp: Map_delete_def Map_keys_def filter_id_conv rev_image_eqI)

lemma evictOldest_full:
  assumes "distinct (Map_keys m)" "Map_size m \<ge> MAX_CACHE_SIZE cfg"
  shows "evictOldest cfg m = tl m"
  using assms Map_delete_first
  by (cases m) (auto simp: evictOldest_def Map_first_key_def Map_size_def)

lemma evictOldest_room: "Map_size m < MAX_CACHE_SIZE cfg \<Longrightarrow> evictOldest cfg m = m"
  by (simp add: evictOldest_def)

lemma cache_saveCache [simp]: "cache (saveCache s) = cache s"
  by (simp add: saveCache_def)

lemma cache_set_cm:
  "ENABLE_CACHE cfg \<Longrightarrow>
   cache (set_cm cfg now s input sugg) =
     Map_set (evictOldest cfg (cache s)) (getCacheKey input) \<lparr>suggestion = sugg, timestamp = now\<rparr>"
  by (simp add: set_cm_def Let_def)

lemma Map_keys_Map_set_fresh:
  "k \<notin> set (Map_keys m) \<Longrightarrow> Map_keys (Map_set m k v) = Map_keys m @ [k]"
  by (simp add: Map_set_fresh) (simp add: Map_keys_def)

lemma Map_keys_tl: "Map_keys (tl m) = tl (Map_keys m)"
  by (simp add: Map_keys_def map_tl)

lemma set_cm_fresh_keys:
  assumes en: "ENABLE_CACHE cfg" and pos: "0 < MAX_CACHE_SIZE cfg"
    and d: "distinct (Map_keys (cache s))" and fresh: "getCacheKey input \<notin> set (Map_keys (cache s))"
    and le: "Map_size (cache s) \<le> MAX_CACHE_SIZE cfg"
  shows "Map_keys (cache (set_cm cfg now s input sugg)) =
           drop (Suc (Map_size (cache s)) - MAX_CACHE_SIZE cfg) (Map_keys (cache s) @ [getCacheKey input])"
proof (cases "Map_size (cache s) < MAX_CACHE_SIZE cfg")
  case True
  then show ?thesis using en fresh
    by (simp add: cache_set_cm evictOldest_room Map_keys_Map_set_fresh)
next
  case False
  then have full: "Map_size (cache s) = MAX_CACHE_SIZE cfg" using le by simp
  then have ne: "cache s \<noteq> []" using pos by (auto simp: Map_size_def)
  have ev: "evictOldest cfg (cache s) = tl (cache s)"
    using d full by (simp add: evictOldest_full)
  have "getCacheKey input \<notin> set (Map_keys (tl (cache s)))"
    using fresh ne by (auto simp: Map_keys_def dest: list.set_sel(2))
  then have "Map_keys (cache (set_cm cfg now s input sugg)) = tl (Map_keys (cache s)) @ [getCacheKey input]"
    using en by (simp add: cache_set_cm ev Map_keys_Map_set_fresh Map_keys_tl)
  moreover have "Map_keys (cache s) \<noteq> []" using ne by (simp add: Map_keys_def)
  ultimately show ?thesis using full pos by (simp add: drop_Suc tl_append2 Map_size_def Map_keys_def)
qed

lemma set_all_keys:
  assumes en: "ENABLE_CACHE cfg" and pos: "0 < MAX_CACHE_SIZE cfg"
  shows "distinct (Map_keys (cache s) @ map opKey ops) \<Longrightarrow>
         Map_size (cache s) \<le> MAX_CACHE_SIZE cfg \<Longrightarrow>
         Map_keys (cache (set_all cfg s ops)) =
           drop (Map_size (cache s) + length ops - MAX_CACHE_SIZE cfg)
             (Map_keys (cache s) @ map opKey ops)"
proof (induction ops arbitrary: s)
  case Nil
  then show ?case by (simp add: set_all_def Map_size_def Map_keys_def)
next
  case (Cons op ops)
  obtain now input sugg where op: "op = (now, input, sugg)" by (cases op)
  let ?s' = "set_cm cfg now s input sugg"
  let ?ks = "map opKey ops"
  have k: "opKey op = getCacheKey input" by (simp add: op opKey_def)
  have d: "distinct (Map_keys (cache s))" and fresh: "getCacheKey input \<notin> set (Map_keys (cache s))"
    and nin: "getCacheKey input \<notin> set ?ks" and disj: "set (Map_keys (cache s)) \<inter> set ?ks = {}"
    using Cons.prems(1) k by auto
  have keys': "Map_keys (cache ?s') =
      drop (Suc (Map_size (cache s)) - MAX_CACHE_SIZE cfg) (Map_keys (cache s) @ [getCacheKey input])"
    using set_cm_fresh_keys [OF en pos d fresh Cons.prems(2)] .
  have len: "Map_size (cache s) = length (Map_keys (cache s))" by (simp add: Map_size_def Map_keys_def)
  have size': "Map_size (cache ?s') = Suc (Map_size (cache s)) - (Suc (Map_size (cache s)) - MAX_CACHE_SIZE cfg)"
    using keys' len by (metis Map_keys_def Map_size_def length_append_singleton length_drop length_map)
  have le': "Map_size (cache ?s') \<le> MAX_CACHE_SIZE cfg" using size' Cons.prems(2) by simp
  have sub: "set (Map_keys (cache ?s')) \<subseteq> set (Map_keys (cache s) @ [getCacheKey input])"
    unfolding keys' by (rule set_drop_subset)
  have d': "distinct (Map_keys (cache ?s') @ ?ks)"
  proof -
    have "distinct (Map_keys (cache ?s'))" unfolding keys' using d fresh by (intro distinct_drop) simp
    moreover have "distinct ?ks" using Cons.prems(1) by simp
    moreover have "set (Map_keys (cache ?s')) \<inter> set ?ks = {}"
      using sub nin disj by (simp only: set_append list.set) blast
    ultimately show ?thesis by simp
  qed
  have "Map_keys (cache (set_all cfg s (op # ops))) = Map_keys (cache (set_all cfg ?s' ops))"
    by (simp add: set_all_def op)
  also have "\<dots> = drop (Map_size (cache ?s') + length ops - MAX_CACHE_SIZE cfg) (Map_keys (cache ?s') @ ?ks)"
    using Cons.IH [OF d' le'] .
  also have "\<dots> = drop (Map_size (cache s) + length (op # ops) - MAX_CACHE_SIZE cfg)
             (Map_keys (cache s) @ map opKey (op # ops))"
  proof (cases "Map_size (cache s) < MAX_CACHE_SIZE cfg")
    case True
    then show ?thesis using keys' size' by (simp add: k)
  next
    case False
    then have full: "Map_size (cache s) = MAX_CACHE_SIZE cfg" using Cons.prems(2) by simp
    have ne: "Map_keys (cache s) \<noteq> []" using full pos len by auto
    then have lpos: "Suc 0 - length (Map_keys (cache s)) = 0" by (cases "Map_keys (cache s)") simp_all
    have ks': "Map_keys (cache ?s') = tl (Map_keys (cache s)) @ [getCacheKey input]"
      using keys' full ne lpos by (simp add: drop_Suc tl_append2)
    have sz': "Map_size (cache ?s') = MAX_CACHE_SIZE cfg" using size' full by simp
    have "drop (Map_size (cache ?s') + length ops - MAX_CACHE_SIZE cfg) (Map_keys (cache ?s') @ ?ks)
        = drop (length ops) (tl (Map_keys (cache s)) @ getCacheKey input # ?ks)"
      by (simp only: sz' ks' add_diff_cancel_left' append_assoc append_Cons append_Nil)
    also have "\<dots> = drop (Suc (length ops)) (Map_keys (cache s) @ getCacheKey input # ?ks)"
      using ne by (cases "Map_keys (cache s)") simp_all
    also have "\<dots> = drop (Map_size (cache s) + length (op # ops) - MAX_CACHE_SIZE cfg)
             (Map_keys (cache s) @ map opKey (op # ops))"
      by (simp only: full list.size add_diff_cancel_left' list.map k) simp
    finally show ?thesis .
  qed
  finally show ?case .
qed

lemma Map_keys_Cons: "Map_keys (p # ps) = fst p # Map_keys ps"
  by (simp add: Map_keys_def)

lemma Map_size_keys: "Map_size m = length (Map_keys m)"
  by (simp add: Map_size_def Map_keys_def)

lemmas cache_eval = set_all_def config_js_def set_cm_def newCacheManager_def evictOldest_def
  Map_size_def Map_first_key_def Map_delete_def Map_keys_def saveCache_def getCacheKey_def trim_def toLowerCase_def
  lowerChar_def isWhiteSpace_def Let_def

lemma twoEntries_cache:
  "cache twoEntries = [(''aa'', \<lparr>suggestion = ''x'', timestamp = 0\<rparr>),
                       (''bb'', \<lparr>suggestion = ''y'', timestamp = 1\<rparr>)]"
  by (simp add: twoEntries_def cfg2_def cache_eval)


subsection \<open>Capacity\<close>

text \<open>
  C6. With caching enabled and a positive \<open>MAX_CACHE_SIZE\<close>: when the cache holds
  exactly \<open>MAX_CACHE_SIZE\<close> entries, \<open>set\<close> removes the earliest-inserted entry and no
  other and then stores the new one (at the end when its key is new). Hence
  \<open>MAX_CACHE_SIZE + 1\<close> calls of \<open>set\<close> with distinct keys on an empty cache leave
  exactly \<open>MAX_CACHE_SIZE\<close> entries: the first key is gone and the later keys are
  present, in insertion order.
\<close>

theorem set_evicts_earliest_inserted:
  assumes en: "ENABLE_CACHE cfg" and pos: "0 < MAX_CACHE_SIZE cfg"
  shows "(distinct (Map_keys (cache s)) \<and> Map_size (cache s) = MAX_CACHE_SIZE cfg \<longrightarrow>
            cache (set_cm cfg now s input sugg) =
              Map_set (tl (cache s)) (getCacheKey input) \<lparr>suggestion = sugg, timestamp = now\<rparr> \<and>
            (getCacheKey input \<notin> set (Map_keys (cache s)) \<longrightarrow>
               cache (set_cm cfg now s input sugg) =
                 tl (cache s) @ [(getCacheKey input, \<lparr>suggestion = sugg, timestamp = now\<rparr>)])) \<and>
         (cache s = [] \<and> distinct (map opKey ops) \<and> length ops = MAX_CACHE_SIZE cfg + 1 \<longrightarrow>
            Map_keys (cache (set_all cfg s ops)) = tl (map opKey ops) \<and>
            Map_size (cache (set_all cfg s ops)) = MAX_CACHE_SIZE cfg \<and>
            opKey (hd ops) \<notin> set (Map_keys (cache (set_all cfg s ops))) \<and>
            set (map opKey (tl ops)) \<subseteq> set (Map_keys (cache (set_all cfg s ops))))"
proof (intro conjI impI)
  assume a: "distinct (Map_keys (cache s)) \<and> Map_size (cache s) = MAX_CACHE_SIZE cfg"
  then have ev: "evictOldest cfg (cache s) = tl (cache s)" by (simp add: evictOldest_full)
  show c: "cache (set_cm cfg now s input sugg) =
      Map_set (tl (cache s)) (getCacheKey input) \<lparr>suggestion = sugg, timestamp = now\<rparr>"
    using en by (simp add: cache_set_cm ev)
  assume fresh: "getCacheKey input \<notin> set (Map_keys (cache s))"
  have "cache s \<noteq> []" using a pos by (auto simp: Map_size_def)
  then have "getCacheKey input \<notin> set (Map_keys (tl (cache s)))"
    using fresh by (auto simp: Map_keys_def dest: list.set_sel(2))
  then show "cache (set_cm cfg now s input sugg) =
      tl (cache s) @ [(getCacheKey input, \<lparr>suggestion = sugg, timestamp = now\<rparr>)]"
    by (simp add: c Map_set_fresh)
next
  assume b: "cache s = [] \<and> distinct (map opKey ops) \<and> length ops = MAX_CACHE_SIZE cfg + 1"
  then have "Map_keys (cache (set_all cfg s ops)) =
      drop (Map_size (cache s) + length ops - MAX_CACHE_SIZE cfg) (Map_keys (cache s) @ map opKey ops)"
    by (intro set_all_keys [OF en pos]) (simp_all add: Map_keys_def Map_size_def)
  then have k: "Map_keys (cache (set_all cfg s ops)) = tl (map opKey ops)"
    using b by (simp add: Map_keys_def Map_size_def drop_Suc)
  show "Map_keys (cache (set_all cfg s ops)) = tl (map opKey ops)" by (rule k)
  show "Map_size (cache (set_all cfg s ops)) = MAX_CACHE_SIZE cfg"
    using b by (simp add: Map_size_keys k)
  have ne: "ops \<noteq> []" using b by auto
  then obtain op ops' where ops: "ops = op # ops'" by (cases ops) auto
  show "opKey (hd ops) \<notin> set (Map_keys (cache (set_all cfg s ops)))"
    using b unfolding k by (simp add: ops)
  show "set (map opKey (tl ops)) \<subseteq> set (Map_keys (cache (set_all cfg s ops)))"
    unfolding k by (simp add: ops)
qed

theorem set_evicts_earliest_inserted_witness:
  "ENABLE_CACHE cfg2 \<and> 0 < MAX_CACHE_SIZE cfg2 \<and>
   distinct (Map_keys (cache twoEntries)) \<and> Map_size (cache twoEntries) = MAX_CACHE_SIZE cfg2 \<and>
   getCacheKey ''cc'' \<notin> set (Map_keys (cache twoEntries)) \<and>
   cache (set_cm cfg2 2 twoEntries ''cc'' ''z'') =
     [(''bb'', \<lparr>suggestion = ''y'', timestamp = 1\<rparr>), (''cc'', \<lparr>suggestion = ''z'', timestamp = 2\<rparr>)] \<and>
   cache (newCacheManager ''Tue Nov 03 2026'' None None True) = [] \<and>
   distinct (map opKey threeSets) \<and> length threeSets = MAX_CACHE_SIZE cfg2 + 1 \<and>
   Map_keys (cache (set_all cfg2 (newCacheManager ''Tue Nov 03 2026'' None None True) threeSets)) =
     [''bb'', ''cc'']"
proof -
  have en: "ENABLE_CACHE cfg2" and pos: "0 < MAX_CACHE_SIZE cfg2"
    by (simp_all add: cfg2_def config_js_def)
  have a: "distinct (Map_keys (cache twoEntries)) \<and> Map_size (cache twoEntries) = MAX_CACHE_SIZE cfg2"
    and f: "getCacheKey ''cc'' \<notin> set (Map_keys (cache twoEntries))"
    by (simp_all add: twoEntries_cache cfg2_def cache_eval)
  have b: "cache (newCacheManager ''Tue Nov 03 2026'' None None True) = [] \<and>
     distinct (map opKey threeSets) \<and> length threeSets = MAX_CACHE_SIZE cfg2 + 1"
    by (simp add: threeSets_def opKey_def cfg2_def cache_eval)
  have k: "tl (map opKey threeSets) = [''bb'', ''cc'']"
    by (simp add: threeSets_def opKey_def cache_eval)
  show ?thesis
    using en pos a f b
      set_evicts_earliest_inserted [OF en pos, of twoEntries 2 "''cc''" "''z''" threeSets]
      set_evicts_earliest_inserted [OF en pos, of "newCacheManager ''Tue Nov 03 2026'' None None True" 0 "''cc''" "''z''" threeSets]
    by (simp add: k twoEntries_cache getCacheKey_def trim_def toLowerCase_def lowerChar_def isWhiteSpace_def)
qed


text \<open>
  C10, amended. When the cache holds exactly \<open>MAX_CACHE_SIZE\<close> entries and the key is
  already present: if the key is not the earliest-inserted one, the earliest-inserted
  entry is evicted and the key is overwritten where it stands, which leaves
  \<open>MAX_CACHE_SIZE - 1\<close> entries; if the key is itself the earliest-inserted one, its
  own entry is the one evicted and it is stored again as the newest entry, so the cache
  stays at \<open>MAX_CACHE_SIZE\<close> and no other entry is removed.
\<close>

theorem set_existing_key_at_capacity:
  assumes en: "ENABLE_CACHE cfg" and d: "distinct (Map_keys (cache s))"
    and full: "Map_size (cache s) = MAX_CACHE_SIZE cfg"
    and present: "getCacheKey input \<in> set (Map_keys (cache s))"
  shows "(Map_first_key (cache s) \<noteq> Some (getCacheKey input) \<longrightarrow>
            Map_keys (cache (set_cm cfg now s input sugg)) = tl (Map_keys (cache s)) \<and>
            Map_size (cache (set_cm cfg now s input sugg)) = MAX_CACHE_SIZE cfg - 1) \<and>
         (Map_first_key (cache s) = Some (getCacheKey input) \<longrightarrow>
            Map_keys (cache (set_cm cfg now s input sugg)) = tl (Map_keys (cache s)) @ [getCacheKey input] \<and>
            Map_size (cache (set_cm cfg now s input sugg)) = MAX_CACHE_SIZE cfg) \<and>
         Map_get (cache (set_cm cfg now s input sugg)) (getCacheKey input) =
           Some \<lparr>suggestion = sugg, timestamp = now\<rparr>"
proof -
  let ?k = "getCacheKey input"
  let ?e = "\<lparr>suggestion = sugg, timestamp = now\<rparr>"
  have ev: "evictOldest cfg (cache s) = tl (cache s)" using d full by (simp add: evictOldest_full)
  have c: "cache (set_cm cfg now s input sugg) = Map_set (tl (cache s)) ?k ?e"
    using en by (simp add: cache_set_cm ev)
  obtain p ps where ps: "cache s = p # ps" using present by (cases "cache s") (auto simp: Map_keys_def)
  have first: "Map_first_key (cache s) = Some (fst p)" by (simp add: ps Map_first_key_def)
  have tlk: "tl (Map_keys (cache s)) = Map_keys ps" by (simp add: ps Map_keys_Cons)
  have c': "cache (set_cm cfg now s input sugg) = Map_set ps ?k ?e" by (simp add: c ps)
  have len: "Suc (length (Map_keys ps)) = MAX_CACHE_SIZE cfg"
    using full by (simp add: ps Map_size_keys Map_keys_Cons)
  have g: "Map_get (cache (set_cm cfg now s input sugg)) ?k = Some ?e"
    by (simp add: c Map_get_Map_set_same)
  show ?thesis
  proof (cases "fst p = ?k")
    case True
    then have "?k \<notin> set (Map_keys ps)" using d by (auto simp: ps Map_keys_Cons)
    then have "Map_keys (Map_set ps ?k ?e) = Map_keys ps @ [?k]" by (rule Map_keys_Map_set_fresh)
    then have "Map_keys (cache (set_cm cfg now s input sugg)) = tl (Map_keys (cache s)) @ [?k]"
      and "Map_size (cache (set_cm cfg now s input sugg)) = MAX_CACHE_SIZE cfg"
      using len by (simp_all add: c' tlk Map_size_keys)
    then show ?thesis using True g first by simp
  next
    case False
    then have "?k \<in> set (Map_keys ps)" using present by (auto simp: ps Map_keys_Cons)
    then have "Map_keys (Map_set ps ?k ?e) = Map_keys ps" by (rule Map_keys_Map_set_present)
    then have "Map_keys (cache (set_cm cfg now s input sugg)) = tl (Map_keys (cache s))"
      and "Map_size (cache (set_cm cfg now s input sugg)) = MAX_CACHE_SIZE cfg - 1"
      using len by (simp_all add: c' tlk Map_size_keys)
    then show ?thesis using False g first by simp
  qed
qed


theorem set_existing_key_at_capacity_witness:
  "ENABLE_CACHE cfg2 \<and> distinct (Map_keys (cache twoEntries)) \<and>
   Map_size (cache twoEntries) = MAX_CACHE_SIZE cfg2 \<and>
   getCacheKey ''BB'' \<in> set (Map_keys (cache twoEntries)) \<and>
   Map_first_key (cache twoEntries) \<noteq> Some (getCacheKey ''BB'') \<and>
   Map_keys (cache (set_cm cfg2 2 twoEntries ''BB'' ''z'')) = [''bb''] \<and>
   Map_size (cache (set_cm cfg2 2 twoEntries ''BB'' ''z'')) = 1 \<and>
   getCacheKey ''AA'' \<in> set (Map_keys (cache twoEntries)) \<and>
   Map_first_key (cache twoEntries) = Some (getCacheKey ''AA'') \<and>
   Map_keys (cache (set_cm cfg2 2 twoEntries ''AA'' ''z'')) = [''bb'', ''aa''] \<and>
   Map_size (cache (set_cm cfg2 2 twoEntries ''AA'' ''z'')) = 2"
proof -
  have h: "ENABLE_CACHE cfg2" "distinct (Map_keys (cache twoEntries))"
    "Map_size (cache twoEntries) = MAX_CACHE_SIZE cfg2"
    by (simp_all add: twoEntries_cache cfg2_def cache_eval)
  have b: "getCacheKey ''BB'' \<in> set (Map_keys (cache twoEntries))"
    and a: "getCacheKey ''AA'' \<in> set (Map_keys (cache twoEntries))"
    by (simp_all add: twoEntries_cache cache_eval)
  have n: "Map_first_key (cache twoEntries) \<noteq> Some (getCacheKey ''BB'')"
    and y: "Map_first_key (cache twoEntries) = Some (getCacheKey ''AA'')"
    by (simp_all add: twoEntries_cache cache_eval)
  have ka: "getCacheKey ''AA'' = ''aa''"
    by (simp add: cache_eval)
  show ?thesis
    using h a b n y
      set_existing_key_at_capacity [OF h b, of 2 "''z''"]
      set_existing_key_at_capacity [OF h a, of 2 "''z''"]
    by (simp add: ka twoEntries_cache cfg2_def config_js_def Map_keys_def)
qed

text \<open>
  C10 as stated fails when the key being updated is the earliest-inserted one: with room
  for two entries \<open>aa, bb\<close>, updating \<open>aa\<close> leaves the two entries \<open>bb, aa\<close>.
\<close>

theorem set_existing_oldest_counterexample:
  "Map_size (cache twoEntries) = MAX_CACHE_SIZE cfg2 \<and>
   getCacheKey ''AA'' \<in> set (Map_keys (cache twoEntries)) \<and>
   Map_keys (cache (set_cm cfg2 2 twoEntries ''AA'' ''z'')) = [''bb'', ''aa''] \<and>
   Map_size (cache (set_cm cfg2 2 twoEntries ''AA'' ''z'')) \<noteq> MAX_CACHE_SIZE cfg2 - 1"
proof -
  have en: "ENABLE_CACHE cfg2" by (simp add: cfg2_def config_js_def)
  have c: "cache (set_cm cfg2 2 twoEntries ''AA'' ''z'') =
      [(''bb'', \<lparr>suggestion = ''y'', timestamp = 1\<rparr>), (''aa'', \<lparr>suggestion = ''z'', timestamp = 2\<rparr>)]"
    unfolding cache_set_cm [OF en] twoEntries_cache
    by (simp add: cfg2_def config_js_def evictOldest_def Map_size_def Map_first_key_def
        Map_delete_def getCacheKey_def trim_def toLowerCase_def lowerChar_def isWhiteSpace_def)
  show ?thesis
    unfolding c twoEntries_cache
    by (simp add: cfg2_def config_js_def Map_size_def Map_keys_def getCacheKey_def trim_def
        toLowerCase_def lowerChar_def isWhiteSpace_def)
qed

subsection \<open>Expiry\<close>

lemma getCacheKey_example: "getCacheKey '' git status '' = getCacheKey ''Git Status''"
  by (simp add: getCacheKey_def trim_def toLowerCase_def lowerChar_def isWhiteSpace_def)

text \<open>
  C7. With caching enabled, an entry that \<open>set\<close> created at time \<open>T\<close> is returned by
  \<open>get\<close>, for any input with the same normalised key, exactly when the query time is
  strictly before \<open>T + CACHE_DURATION\<close>; at \<open>T + CACHE_DURATION\<close> or later \<open>get\<close>
  returns \<open>null\<close>.
\<close>

theorem get_after_set_ttl:
  assumes "ENABLE_CACHE cfg" and "getCacheKey q = getCacheKey input"
  shows "fst (get cfg t (set_cm cfg T s input sugg) q) =
           (if t < T + CACHE_DURATION cfg then Some sugg else None)"
  using assms by (auto simp: get_def cache_set_cm Map_get_Map_set_same Let_def)

theorem get_after_set_ttl_witness:
  "ENABLE_CACHE (config_js []) \<and> getCacheKey '' git status '' = getCacheKey ''Git Status'' \<and>
   fst (get (config_js []) 3599999
          (set_cm (config_js []) 0 (newCacheManager ''Tue Nov 03 2026'' None None True)
             ''Git Status'' ''git status'')
          '' git status '') = Some ''git status'' \<and>
   fst (get (config_js []) 3600000
          (set_cm (config_js []) 0 (newCacheManager ''Tue Nov 03 2026'' None None True)
             ''Git Status'' ''git status'')
          '' git status '') = None"
proof -
  have en: "ENABLE_CACHE (config_js [])" by (simp add: config_js_def)
  have ttl: "CACHE_DURATION (config_js []) = 3600000" by (simp add: config_js_def)
  note th = get_after_set_ttl [OF en getCacheKey_example, of _ 0
      "newCacheManager ''Tue Nov 03 2026'' None None True" "''git status''"]
  show ?thesis using en getCacheKey_example th [of 3599999] th [of 3600000] by (simp add: ttl)
qed

subsection \<open>Credential rotation\<close>

lemma apiKeys_rotateApiKey [simp]: "apiKeys (rotateApiKey sv) = apiKeys sv"
  by (simp add: rotateApiKey_def)

lemma currentKeyIndex_rotateApiKey [simp]:
  "currentKeyIndex (rotateApiKey sv) = (currentKeyIndex sv + 1) mod length (apiKeys sv)"
  by (simp add: rotateApiKey_def)

lemma getCurrentApiKey_in_range:
  "currentKeyIndex sv < length (apiKeys sv) \<Longrightarrow> getCurrentApiKey sv = apiKeys sv ! currentKeyIndex sv"
  by (simp add: getCurrentApiKey_def)

lemma cursorAt_0: "currentKeyIndex sv < length (apiKeys sv) \<Longrightarrow> cursorAt sv 0 = currentKeyIndex sv"
  by (simp add: cursorAt_def)

lemma cursorAt_rotate: "cursorAt (rotateApiKey sv) i = cursorAt sv (Suc i)"
  by (simp add: cursorAt_def mod_add_left_eq)

lemma rotate_in_range: "0 < length (apiKeys sv) \<Longrightarrow> currentKeyIndex (rotateApiKey sv) < length (apiKeys (rotateApiKey sv))"
  by simp

lemma set_cursor_rotate:
  "(rotateApiKey sv)\<lparr>currentKeyIndex := cursorAt (rotateApiKey sv) i\<rparr> = sv\<lparr>currentKeyIndex := cursorAt sv (Suc i)\<rparr>"
  by (simp add: cursorAt_rotate) (simp add: rotateApiKey_def)

lemma map_cursorAt_Suc:
  "cursorAt sv 0 # map (cursorAt (rotateApiKey sv)) [0..<n] = map (cursorAt sv) [0..<Suc n]"
proof -
  have "map (cursorAt (rotateApiKey sv)) [0..<n] = map (cursorAt sv) (map Suc [0..<n])"
    by (simp add: cursorAt_rotate)
  also have "\<dots> = map (cursorAt sv) [Suc 0..<Suc n]" by (simp only: map_Suc_upt)
  finally show ?thesis by (simp add: upt_conv_Cons del: upt_Suc)
qed

lemma post_success_after:
  "currentKeyIndex sv < length (apiKeys sv) \<Longrightarrow> a + n < length (apiKeys sv) \<Longrightarrow>
   (\<forall>i<n. p (a + i) (apiKeys sv ! cursorAt sv i) = None) \<Longrightarrow>
   p (a + n) (apiKeys sv ! cursorAt sv n) = Some r \<Longrightarrow>
   postWithKeyRotation p sv a =
     (Inr r, sv\<lparr>currentKeyIndex := cursorAt sv n\<rparr>, map (cursorAt sv) [0..<Suc n])"
proof (induction n arbitrary: sv a)
  case 0
  then show ?case
    by (subst postWithKeyRotation.simps) (simp add: getCurrentApiKey_in_range cursorAt_0)
next
  case (Suc n)
  let ?sv = "rotateApiKey sv"
  have pos: "0 < length (apiKeys sv)" using Suc.prems(1) by (cases "apiKeys sv") simp_all
  have fail: "p a (getCurrentApiKey sv) = None"
    using Suc.prems(1,3) by (auto simp: getCurrentApiKey_in_range cursorAt_0 dest: spec [of _ 0])
  have IH: "postWithKeyRotation p ?sv (Suc a) =
      (Inr r, ?sv\<lparr>currentKeyIndex := cursorAt ?sv n\<rparr>, map (cursorAt ?sv) [0..<Suc n])"
  proof (rule Suc.IH)
    show "currentKeyIndex ?sv < length (apiKeys ?sv)" using pos by simp
    show "Suc a + n < length (apiKeys ?sv)" using Suc.prems(2) by simp
    show "\<forall>i<n. p (Suc a + i) (apiKeys ?sv ! cursorAt ?sv i) = None"
      using Suc.prems(3) by (auto simp: cursorAt_rotate dest: spec [of _ "Suc _"])
    show "p (Suc a + n) (apiKeys ?sv ! cursorAt ?sv n) = Some r"
      using Suc.prems(4) by (simp add: cursorAt_rotate)
  qed
  have "postWithKeyRotation p sv a =
      (Inr r, ?sv\<lparr>currentKeyIndex := cursorAt ?sv n\<rparr>, currentKeyIndex sv # map (cursorAt ?sv) [0..<Suc n])"
    using Suc.prems(2) fail by (subst postWithKeyRotation.simps) (simp add: IH)
  then show ?case
    using map_cursorAt_Suc [of sv "Suc n"] cursorAt_0 [OF Suc.prems(1)]
    by (simp only: set_cursor_rotate)
qed

lemma post_all_fail:
  "currentKeyIndex sv < length (apiKeys sv) \<Longrightarrow> a + n = length (apiKeys sv) \<Longrightarrow>
   (\<forall>i<n. p (a + i) (apiKeys sv ! cursorAt sv i) = None) \<Longrightarrow>
   postWithKeyRotation p sv a =
     (Inl Exhausted, sv\<lparr>currentKeyIndex := cursorAt sv n\<rparr>, map (cursorAt sv) [0..<n])"
proof (induction n arbitrary: sv a)
  case 0
  then show ?case
    by (subst postWithKeyRotation.simps) (simp add: cursorAt_0)
next
  case (Suc n)
  let ?sv = "rotateApiKey sv"
  have pos: "0 < length (apiKeys sv)" using Suc.prems(1) by (cases "apiKeys sv") simp_all
  have fail: "p a (getCurrentApiKey sv) = None"
    using Suc.prems(1,3) by (auto simp: getCurrentApiKey_in_range cursorAt_0 dest: spec [of _ 0])
  have IH: "postWithKeyRotation p ?sv (Suc a) =
      (Inl Exhausted, ?sv\<lparr>currentKeyIndex := cursorAt ?sv n\<rparr>, map (cursorAt ?sv) [0..<n])"
  proof (rule Suc.IH)
    show "currentKeyIndex ?sv < length (apiKeys ?sv)" using pos by simp
    show "Suc a + n = length (apiKeys ?sv)" using Suc.prems(2) by simp
    show "\<forall>i<n. p (Suc a + i) (apiKeys ?sv ! cursorAt ?sv i) = None"
      using Suc.prems(3) by (auto simp: cursorAt_rotate dest: spec [of _ "Suc _"])
  qed
  have "postWithKeyRotation p sv a =
      (Inl Exhausted, ?sv\<lparr>currentKeyIndex := cursorAt ?sv n\<rparr>, currentKeyIndex sv # map (cursorAt ?sv) [0..<n])"
    using Suc.prems(2) fail by (subst postWithKeyRotation.simps) (simp add: IH)
  then show ?case
    using map_cursorAt_Suc [of sv n] cursorAt_0 [OF Suc.prems(1)]
    by (simp only: set_cursor_rotate)
qed


lemma cursorAt_if:
  assumes "currentKeyIndex sv < length (apiKeys sv)" and "i < length (apiKeys sv)"
  shows "cursorAt sv i =
    (if currentKeyIndex sv + i < length (apiKeys sv) then currentKeyIndex sv + i
     else currentKeyIndex sv + i - length (apiKeys sv))"
  using assms by (simp add: cursorAt_def le_mod_geq)

lemma cursorAt_full: "currentKeyIndex sv < length (apiKeys sv) \<Longrightarrow> cursorAt sv (length (apiKeys sv)) = currentKeyIndex sv"
  by (simp add: cursorAt_def)

lemma cursorAt_inj:
  assumes "currentKeyIndex sv < length (apiKeys sv)"
  shows "inj_on (cursorAt sv) {0..<length (apiKeys sv)}"
proof (rule inj_onI)
  fix i j assume "i \<in> {0..<length (apiKeys sv)}" "j \<in> {0..<length (apiKeys sv)}"
    and "cursorAt sv i = cursorAt sv j"
  then show "i = j" using assms by (simp add: cursorAt_if split: if_splits)
qed

lemma cursorAt_positions:
  assumes "currentKeyIndex sv < length (apiKeys sv)"
  shows "distinct (map (cursorAt sv) [0..<length (apiKeys sv)])"
    and "set (map (cursorAt sv) [0..<length (apiKeys sv)]) = {0..<length (apiKeys sv)}"
proof -
  let ?K = "length (apiKeys sv)"
  show "distinct (map (cursorAt sv) [0..<?K])"
    using cursorAt_inj [OF assms] by (simp add: distinct_map)
  have "0 < ?K" using assms by (cases "apiKeys sv") simp_all
  then have sub: "cursorAt sv ` {0..<?K} \<subseteq> {0..<?K}"
    by (auto simp: cursorAt_def)
  have "card (cursorAt sv ` {0..<?K}) = card {0..<?K}"
    using cursorAt_inj [OF assms] by (rule card_image)
  then have "cursorAt sv ` {0..<?K} = {0..<?K}"
    using sub by (intro card_subset_eq) simp_all
  then show "set (map (cursorAt sv) [0..<?K]) = {0..<?K}" by simp
qed

text \<open>
  C1. For a pool of \<open>K\<close> credentials and a cursor inside the pool: if the call fails on
  the first \<open>j < K\<close> attempts and succeeds on the next, \<open>postWithKeyRotation\<close> returns
  that response, has sent \<open>j + 1\<close> requests, and leaves the cursor \<open>j\<close> positions
  further round the pool; if all \<open>K\<close> attempts fail it ends with the exhaustion error
  after exactly \<open>K\<close> requests, one at each position of the pool, and the cursor is back
  where it started.
\<close>

theorem postWithKeyRotation_failover:
  assumes c: "currentKeyIndex sv < length (apiKeys sv)"
  shows "(j < length (apiKeys sv) \<and> (\<forall>i<j. p i (apiKeys sv ! cursorAt sv i) = None) \<and>
          p j (apiKeys sv ! cursorAt sv j) = Some r \<longrightarrow>
            postWithKeyRotation p sv 0 =
              (Inr r, sv\<lparr>currentKeyIndex := cursorAt sv j\<rparr>, map (cursorAt sv) [0..<Suc j])) \<and>
         ((\<forall>i<length (apiKeys sv). p i (apiKeys sv ! cursorAt sv i) = None) \<longrightarrow>
            postWithKeyRotation p sv 0 =
              (Inl Exhausted, sv, map (cursorAt sv) [0..<length (apiKeys sv)]) \<and>
            length (snd (snd (postWithKeyRotation p sv 0))) = length (apiKeys sv) \<and>
            distinct (snd (snd (postWithKeyRotation p sv 0))) \<and>
            set (snd (snd (postWithKeyRotation p sv 0))) = {0..<length (apiKeys sv)})"
proof (intro conjI impI)
  assume "j < length (apiKeys sv) \<and> (\<forall>i<j. p i (apiKeys sv ! cursorAt sv i) = None) \<and>
          p j (apiKeys sv ! cursorAt sv j) = Some r"
  then show "postWithKeyRotation p sv 0 =
      (Inr r, sv\<lparr>currentKeyIndex := cursorAt sv j\<rparr>, map (cursorAt sv) [0..<Suc j])"
    using post_success_after [OF c, of 0 j p r] by simp
next
  assume a: "\<forall>i<length (apiKeys sv). p i (apiKeys sv ! cursorAt sv i) = None"
  have "postWithKeyRotation p sv 0 =
      (Inl Exhausted, sv\<lparr>currentKeyIndex := cursorAt sv (length (apiKeys sv))\<rparr>,
       map (cursorAt sv) [0..<length (apiKeys sv)])"
    using post_all_fail [OF c, of 0 "length (apiKeys sv)" p] a by simp
  then show e: "postWithKeyRotation p sv 0 =
      (Inl Exhausted, sv, map (cursorAt sv) [0..<length (apiKeys sv)])"
    by (simp add: cursorAt_full [OF c])
  show "length (snd (snd (postWithKeyRotation p sv 0))) = length (apiKeys sv)"
    by (simp add: e)
  show "distinct (snd (snd (postWithKeyRotation p sv 0)))"
    using cursorAt_positions(1) [OF c] by (simp only: e snd_conv)
  show "set (snd (snd (postWithKeyRotation p sv 0))) = {0..<length (apiKeys sv)}"
    using cursorAt_positions(2) [OF c] by (simp only: e snd_conv)
qed

lemma threeKeys_simps:
  "apiKeys threeKeys = [Some ''k0'', Some ''k1'', Some ''k2'']" "currentKeyIndex threeKeys = 1"
  by (simp_all add: threeKeys_def newService_def config_js_def)


lemma threeKeys_positions:
  "cursorAt threeKeys 2 = 0" "map (cursorAt threeKeys) [0..<Suc 2] = [1, 2, 0]"
  "map (cursorAt threeKeys) [0..<length (apiKeys threeKeys)] = [1, 2, 0]"
  by code_simp+

theorem postWithKeyRotation_failover_witness:
  "currentKeyIndex threeKeys < length (apiKeys threeKeys) \<and>
   postWithKeyRotation failTwice threeKeys 0 =
     (Inr (okResponse ''git status''), threeKeys\<lparr>currentKeyIndex := 0\<rparr>, [1, 2, 0]) \<and>
   postWithKeyRotation failAlways threeKeys 0 = (Inl Exhausted, threeKeys, [1, 2, 0])"
proof -
  have c: "currentKeyIndex threeKeys < length (apiKeys threeKeys)" by (simp add: threeKeys_simps)
  have h1: "2 < length (apiKeys threeKeys) \<and>
        (\<forall>i<2. failTwice i (apiKeys threeKeys ! cursorAt threeKeys i) = None) \<and>
        failTwice 2 (apiKeys threeKeys ! cursorAt threeKeys 2) = Some (okResponse ''git status'')"
    by (simp add: threeKeys_simps failTwice_def)
  have h2: "\<forall>i<length (apiKeys threeKeys). failAlways i (apiKeys threeKeys ! cursorAt threeKeys i) = None"
    by (simp add: failAlways_def)
  have t1: "postWithKeyRotation failTwice threeKeys 0 =
      (Inr (okResponse ''git status''), threeKeys\<lparr>currentKeyIndex := cursorAt threeKeys 2\<rparr>,
       map (cursorAt threeKeys) [0..<Suc 2])"
    using postWithKeyRotation_failover [OF c, of 2 failTwice "okResponse ''git status''"] h1 by blast
  have t2: "postWithKeyRotation failAlways threeKeys 0 =
      (Inl Exhausted, threeKeys, map (cursorAt threeKeys) [0..<length (apiKeys threeKeys)])"
    using postWithKeyRotation_failover [OF c, of 2 failAlways "okResponse ''git status''"] h2 by blast
  show ?thesis
    unfolding t1 t2 threeKeys_positions using c by simp
qed

subsection \<open>Doubles\<close>

text \<open>Rounding to a double changes a positive number by at most the fraction \<open>2^-53\<close> of it.\<close>

lemma bitLength_bounds: "0 < n \<Longrightarrow> 2 ^ (bitLength n - 1) \<le> n \<and> n < 2 ^ bitLength n"
proof (induction n rule: bitLength.induct)
  case (1 n)
  have b: "bitLength n = Suc (bitLength (n div 2))" using "1.prems" by (subst bitLength.simps) simp
  show ?case
  proof (cases "n div 2 \<le> 0")
    case True
    then have "n = 1" using "1.prems" by linarith
    then show ?thesis by (simp add: bitLength.simps [of 1] bitLength.simps [of 0])
  next
    case False
    then have pos: "0 < n div 2" by simp
    have IH: "2 ^ (bitLength (n div 2) - 1) \<le> n div 2 \<and> n div 2 < 2 ^ bitLength (n div 2)"
      using "1.IH" "1.prems" pos by simp
    have "0 < bitLength (n div 2)" using pos by (subst bitLength.simps) simp
    then obtain k where k: "bitLength (n div 2) = Suc k" by (cases "bitLength (n div 2)") auto
    have lo: "2 * 2 ^ k \<le> n" using IH by (simp add: k) linarith
    have hi: "n < 2 * (2 * 2 ^ k)" using IH by (simp add: k) linarith
    show ?thesis using lo hi by (simp add: b k)
  qed
qed

lemma binade_bounds:
  assumes "0 < x"
  shows "0 < binade x" and "binade x \<le> x"
proof -
  show "0 < binade x" by (simp add: binade_def)
  show "binade x \<le> x"
  proof (cases "1 \<le> x")
    case True
    then have "0 < \<lfloor>x\<rfloor>" by linarith
    then have "2 ^ (bitLength \<lfloor>x\<rfloor> - 1) \<le> \<lfloor>x\<rfloor>" using bitLength_bounds by blast
    then have "(of_int (2 ^ (bitLength \<lfloor>x\<rfloor> - 1)) :: rat) \<le> of_int \<lfloor>x\<rfloor>" by (simp only: of_int_le_iff)
    also have "\<dots> \<le> x" by simp
    finally show ?thesis using True by (simp add: binade_def)
  next
    case False
    let ?m = "\<lceil>1 / x\<rceil> - 1"
    have "1 < 1 / x" using assms False by simp
    then have "0 < ?m" by linarith
    then have "?m < 2 ^ bitLength ?m" using bitLength_bounds by blast
    then have "\<lceil>1 / x\<rceil> \<le> 2 ^ bitLength ?m" by linarith
    then have "1 / x \<le> of_int (2 ^ bitLength ?m)" by (simp only: ceiling_le_iff)
    then have "1 / x \<le> 2 ^ bitLength ?m" by simp
    then have "1 / 2 ^ bitLength ?m \<le> x" using assms by (simp add: field_simps)
    then show ?thesis using False by (simp add: binade_def)
  qed
qed

lemma roundHalfEven_error: "\<bar>of_int (roundHalfEven y) - y\<bar> \<le> 1 / 2"
proof -
  have "of_int \<lfloor>y\<rfloor> \<le> y" "y < of_int \<lfloor>y\<rfloor> + 1" by linarith+
  then show ?thesis by (auto simp: roundHalfEven_def Let_def)
qed

lemma scaled_error:
  fixes r u x y :: rat
  assumes "0 < u" and "\<bar>r - y\<bar> \<le> 1 / 2" and "y = x / u"
  shows "\<bar>r * u - x\<bar> \<le> u / 2"
proof -
  have "r * u - x = (r - y) * u" using assms(1,3) by (simp add: field_simps)
  then have "\<bar>r * u - x\<bar> = \<bar>r - y\<bar> * u" using assms(1) by (simp add: abs_mult)
  also have "\<dots> \<le> (1 / 2) * u" using assms(1,2) by (intro mult_right_mono) simp_all
  finally show ?thesis by simp
qed

lemma two_roundings:
  fixes p q x a b :: rat
  assumes "\<bar>q - x\<bar> \<le> a" and "\<bar>p - q * 100\<bar> \<le> b"
  shows "\<bar>p - 100 * x\<bar> \<le> b + 100 * a"
  using assms by linarith

lemma toDouble_error:
  assumes "0 < x"
  shows "\<bar>toDouble x - x\<bar> \<le> x / 2 ^ 53"
proof -
  define u where "u = binade x / 2 ^ 52"
  define r :: rat where "r = of_int (roundHalfEven (x / u))"
  have u: "0 < u" using binade_bounds(1) [OF assms] by (simp add: u_def)
  have td: "toDouble x = r * u" using assms by (simp add: toDouble_def Let_def u_def r_def)
  have "\<bar>r * u - x\<bar> \<le> u / 2"
    using u roundHalfEven_error [of "x / u"] by (intro scaled_error [where y = "x / u"]) (simp_all add: r_def)
  also have "u / 2 = binade x / 2 ^ 53" by (simp add: u_def)
  also have "\<dots> \<le> x / 2 ^ 53" using binade_bounds(2) [OF assms] by (simp add: divide_right_mono)
  finally show ?thesis by (simp only: td)
qed

lemma toDouble_zero [simp]: "toDouble 0 = 0"
  by (simp add: toDouble_def)

lemma percent_error:
  assumes t: "0 < (t::nat)"
  shows "\<bar>dmul (ddiv (of_nat h) (of_nat t)) 100 - 100 * (of_nat h / of_nat t)\<bar>
           \<le> (100 * (of_nat h / of_nat t)) / 2 ^ 51"
proof (cases "h = 0")
  case True
  then show ?thesis by (simp add: dmul_def ddiv_def)
next
  case False
  define x :: rat where "x = of_nat h / of_nat t"
  define q where "q = toDouble x"
  define p where "p = toDouble (q * 100)"
  have x: "0 < x" using False t by (simp add: x_def)
  have e1: "\<bar>q - x\<bar> \<le> x / 2 ^ 53" unfolding q_def by (rule toDouble_error [OF x])
  have small: "x / 2 ^ 53 < x" using x by (simp add: field_simps)
  have q: "0 < q" using e1 small by linarith
  have qle: "q \<le> 2 * x" using e1 small by linarith
  have "0 < q * 100" using q by simp
  then have e2: "\<bar>p - q * 100\<bar> \<le> (q * 100) / 2 ^ 53" unfolding p_def by (rule toDouble_error)
  have "\<bar>p - 100 * x\<bar> \<le> (q * 100) / 2 ^ 53 + 100 * (x / 2 ^ 53)"
    by (rule two_roundings [OF e1 e2])
  also have "\<dots> \<le> (2 * x * 100) / 2 ^ 53 + 100 * (x / 2 ^ 53)"
    using qle by (simp add: divide_right_mono)
  also have "\<dots> \<le> (100 * x) / 2 ^ 51" using x by (simp add: field_simps)
  finally have "\<bar>p - 100 * x\<bar> \<le> (100 * x) / 2 ^ 51" .
  then show ?thesis by (simp only: p_def q_def x_def dmul_def ddiv_def)
qed


subsection \<open>Usage statistics\<close>

lemma showNat_digit: "d < 10 \<Longrightarrow> showNat d = [digitChar d]"
  by (subst showNat.simps) simp

lemma padLeft_digit: "d < 10 \<Longrightarrow> padLeft (Suc 0) (showNat d) = showNat d"
  by (simp add: padLeft_def showNat_digit)

lemma toDouble_nonneg: "0 \<le> x \<Longrightarrow> 0 \<le> toDouble x"
proof (cases "x = 0")
  case True
  then show ?thesis by simp
next
  case False
  assume "0 \<le> x"
  then have x: "0 < x" using False by simp
  have "x / 2 ^ 53 < x" using x by (simp add: field_simps)
  then show ?thesis using toDouble_error [OF x] by linarith
qed

lemma percentDouble_nonneg: "0 \<le> percentDouble u"
  by (simp add: percentDouble_def dmul_def ddiv_def toDouble_nonneg)

lemma toFixed1_tenths:
  assumes "0 \<le> x"
  shows "toFixed 1 x =
    showNat (nat \<lfloor>x * 10 + 1 / 2\<rfloor> div 10) @ ''.'' @ showNat (nat \<lfloor>x * 10 + 1 / 2\<rfloor> mod 10)"
  using assms by (simp add: toFixed_def toFixedDigits_def Let_def padLeft_digit)

lemma percentTenths_error:
  assumes t: "0 < totalRequests u"
  shows "\<bar>of_nat (percentTenths u) / 10 - 100 * (of_nat (cachedHits u) / of_nat (totalRequests u) :: rat)\<bar>
           \<le> 1 / 20 + (100 * (of_nat (cachedHits u) / of_nat (totalRequests u))) / 2 ^ 51"
proof -
  define p where "p = percentDouble u"
  define x :: rat where "x = 100 * (of_nat (cachedHits u) / of_nat (totalRequests u))"
  have p0: "0 \<le> p" unfolding p_def by (rule percentDouble_nonneg)
  have e: "\<bar>p - x\<bar> \<le> x / 2 ^ 51"
    unfolding p_def x_def percentDouble_def by (rule percent_error [OF t])
  have fl: "0 \<le> \<lfloor>p * 10 + 1 / 2\<rfloor>" using p0 by simp
  have n: "(of_nat (percentTenths u) :: rat) = of_int \<lfloor>p * 10 + 1 / 2\<rfloor>"
    using fl by (simp add: percentTenths_def p_def)
  have "of_int \<lfloor>p * 10 + 1 / 2\<rfloor> \<le> p * 10 + 1 / 2" "p * 10 + 1 / 2 < of_int \<lfloor>p * 10 + 1 / 2\<rfloor> + 1"
    by linarith+
  then have "\<bar>of_nat (percentTenths u) / 10 - p\<bar> \<le> 1 / 20" unfolding n by linarith
  then have "\<bar>of_nat (percentTenths u) / 10 - x\<bar> \<le> 1 / 20 + x / 2 ^ 51" using e by linarith
  then show ?thesis by (simp only: x_def)
qed

lemma cacheHitRate_positive:
  assumes "0 < totalRequests (usageStats s)"
  shows "cacheHitRate (getUsageStats s) =
    JStr (showNat (percentTenths (usageStats s) div 10) @ ''.'' @
          showNat (percentTenths (usageStats s) mod 10))"
proof -
  have "cacheHitRate (getUsageStats s) = JStr (toFixed 1 (percentDouble (usageStats s)))"
    using assms by (simp add: getUsageStats_def Let_def percentDouble_def)
  then show ?thesis
    by (simp only: toFixed1_tenths [OF percentDouble_nonneg] percentTenths_def)
qed

lemma estimatedCost_eq: "estimatedCost (getUsageStats s) = toFixed 6 (costEstimate (usageStats s))"
  by (simp add: getUsageStats_def Let_def)

text \<open>
  C9, amended. \<open>getUsageStats\<close> returns \<open>totalRequests\<close>, \<open>dailyRequests\<close> and
  \<open>cachedHits\<close> as stored and \<open>estimatedCost\<close> as the cost estimate printed with six
  decimals (for a cost below \<open>10^21\<close> in size). Its \<open>cacheHitRate\<close> is the number \<open>0\<close>
  when \<open>totalRequests\<close> is \<open>0\<close>; otherwise, for counters below \<open>2^53\<close>, it is a decimal
  string with one fraction digit, the percentage \<open>(cachedHits / totalRequests) * 100\<close>
  as the two double operations compute it, rounded to the nearest tenth: it differs from
  the exact percentage by at most \<open>0.05\<close> plus the fraction \<open>2^-51\<close> of that percentage.
\<close>

theorem getUsageStats_percentage:
  "st_totalRequests (getUsageStats s) = totalRequests (usageStats s) \<and>
   st_dailyRequests (getUsageStats s) = dailyRequests (usageStats s) \<and>
   st_cachedHits (getUsageStats s) = cachedHits (usageStats s) \<and>
   (\<bar>costEstimate (usageStats s)\<bar> < 10 ^ 21 \<longrightarrow>
      estimatedCost (getUsageStats s) = toFixed 6 (costEstimate (usageStats s))) \<and>
   (totalRequests (usageStats s) = 0 \<longrightarrow> cacheHitRate (getUsageStats s) = JNum 0) \<and>
   (0 < totalRequests (usageStats s) \<and> totalRequests (usageStats s) < 2 ^ 53 \<and>
    cachedHits (usageStats s) < 2 ^ 53 \<longrightarrow>
      cacheHitRate (getUsageStats s) =
        JStr (showNat (percentTenths (usageStats s) div 10) @ ''.'' @
              showNat (percentTenths (usageStats s) mod 10)) \<and>
      \<bar>of_nat (percentTenths (usageStats s)) / 10 -
         100 * (of_nat (cachedHits (usageStats s)) / of_nat (totalRequests (usageStats s)) :: rat)\<bar>
        \<le> 1 / 20 +
           (100 * (of_nat (cachedHits (usageStats s)) / of_nat (totalRequests (usageStats s)))) / 2 ^ 51)"
proof -
  have "st_totalRequests (getUsageStats s) = totalRequests (usageStats s)"
    "st_dailyRequests (getUsageStats s) = dailyRequests (usageStats s)"
    "st_cachedHits (getUsageStats s) = cachedHits (usageStats s)"
    "estimatedCost (getUsageStats s) = toFixed 6 (costEstimate (usageStats s))"
    "totalRequests (usageStats s) = 0 \<longrightarrow> cacheHitRate (getUsageStats s) = JNum 0"
    by (simp_all add: getUsageStats_def Let_def)
  then show ?thesis
    using cacheHitRate_positive [of s] percentTenths_error [of "usageStats s"] by blast
qed

text \<open>
  Examples: one hit in two requests prints \<open>50.0\<close>; 23 hits in 80 requests print
  \<open>28.7\<close>, the double product being just below \<open>28.75\<close>; and after
  \<open>recordRequest(20000)\<close> on a new record the cost prints as \<open>0.000007\<close>.
\<close>

lemma showNat_examples:
  "showNat 50 = ''50''" "showNat 0 = ''0''" "showNat 28 = ''28''" "showNat 7 = ''7''"
  by code_simp+

lemma percent_examples:
  "percentTenths (usageStats halfHits) = 500"
  "percentTenths (usageStats hits23of80) = 287"
  by code_simp+

lemma recordRequest_cost:
  "costEstimate (usageStats (recordRequest now s n)) =
     dadd (costEstimate (usageStats s))
       (dadd (ddiv (dmul (of_nat n) (toDouble (75 / 1000000))) 1000000)
             (ddiv (dmul (of_nat n) (toDouble (3 / 10000))) 1000000))"
  by (simp add: recordRequest_def Let_def saveUsageStats_def)

lemma cost_20000:
  "dadd 0 (dadd (ddiv (dmul 20000 (toDouble (75 / 1000000))) 1000000)
                (ddiv (dmul 20000 (toDouble (3 / 10000))) 1000000)) =
     1106804644422573 / 147573952589676412928"
  by code_simp

lemma floor_cost: "\<lfloor>(1106804644422573 / 147573952589676412928 :: rat) * 10 ^ 6 + 1 / 2\<rfloor> = 7"
  by code_simp

lemma padLeft_example: "padLeft 6 ''7'' = ''000007''"
  by code_simp

lemma toFixed6_example: "toFixed 6 (1106804644422573 / 147573952589676412928) = ''0.000007''"
proof -
  have a: "nat 7 div 10 ^ 6 = (0::nat)" "nat 7 mod 10 ^ 6 = (7::nat)" by simp_all
  have "toFixedDigits 6 (1106804644422573 / 147573952589676412928) =
      showNat 0 @ ''.'' @ padLeft 6 (showNat 7)"
    by (simp only: toFixedDigits_def Let_def floor_cost a) simp
  then have "toFixedDigits 6 (1106804644422573 / 147573952589676412928) = ''0.000007''"
    by (simp only: showNat_examples padLeft_example) simp
  then show ?thesis by (simp add: toFixed_def)
qed

lemma cost_example:
  "estimatedCost (getUsageStats (recordRequest 0 (newCacheManager ''Tue Nov 03 2026'' None None True) 20000))
     = ''0.000007''"
proof -
  have z: "costEstimate (usageStats (newCacheManager ''Tue Nov 03 2026'' None None True)) = 0"
    by (simp add: newCacheManager_def freshUsageStats_def)
  have n: "(of_nat 20000 :: rat) = 20000" by simp
  have "costEstimate (usageStats (recordRequest 0 (newCacheManager ''Tue Nov 03 2026'' None None True) 20000))
      = 1106804644422573 / 147573952589676412928"
    by (simp only: recordRequest_cost z n cost_20000)
  then show ?thesis by (simp only: estimatedCost_eq toFixed6_example)
qed

theorem getUsageStats_percentage_witness:
  "0 < totalRequests (usageStats halfHits) \<and> totalRequests (usageStats halfHits) < 2 ^ 53 \<and>
   cachedHits (usageStats halfHits) < 2 ^ 53 \<and>
   cacheHitRate (getUsageStats halfHits) = JStr ''50.0'' \<and>
   0 < totalRequests (usageStats hits23of80) \<and> totalRequests (usageStats hits23of80) < 2 ^ 53 \<and>
   cachedHits (usageStats hits23of80) < 2 ^ 53 \<and>
   cacheHitRate (getUsageStats hits23of80) = JStr ''28.7'' \<and>
   \<bar>costEstimate (usageStats hits23of80)\<bar> < 10 ^ 21 \<and>
   estimatedCost (getUsageStats hits23of80) = toFixed 6 0 \<and>
   totalRequests (usageStats (newCacheManager ''Tue Nov 03 2026'' None None True)) = 0 \<and>
   cacheHitRate (getUsageStats (newCacheManager ''Tue Nov 03 2026'' None None True)) = JNum 0"
proof -
  have t: "totalRequests (usageStats halfHits) = 2" "totalRequests (usageStats hits23of80) = 80"
    "cachedHits (usageStats halfHits) = 1" "cachedHits (usageStats hits23of80) = 23"
    "costEstimate (usageStats hits23of80) = 0"
    "totalRequests (usageStats (newCacheManager ''Tue Nov 03 2026'' None None True)) = 0"
    by (simp_all add: halfHits_def hits23of80_def newCacheManager_def freshUsageStats_def)
  have d: "(500::nat) div 10 = 50" "(500::nat) mod 10 = 0" "(287::nat) div 10 = 28" "(287::nat) mod 10 = 7"
    by simp_all
  show ?thesis
    using getUsageStats_percentage [of halfHits] getUsageStats_percentage [of hits23of80]
      getUsageStats_percentage [of "newCacheManager ''Tue Nov 03 2026'' None None True"]
    by (simp add: t percent_examples d showNat_examples)
qed

text \<open>
  C9 as stated fails: with one hit in two requests the rate is the string \<open>50.0\<close>, not
  the ratio \<open>1/2\<close>.
\<close>

theorem cacheHitRate_ratio_counterexample:
  "cacheHitRate (getUsageStats halfHits) = JStr ''50.0'' \<and>
   spec_cacheHitRate (usageStats halfHits) = 1 / 2 \<and>
   cacheHitRate (getUsageStats halfHits) \<noteq> JNum (spec_cacheHitRate (usageStats halfHits))"
proof -
  have t: "0 < totalRequests (usageStats halfHits)"
    by (simp add: halfHits_def)
  have "cacheHitRate (getUsageStats halfHits) = JStr ''50.0''"
    using cacheHitRate_positive [OF t] by (simp add: percent_examples showNat_examples)
  moreover have "spec_cacheHitRate (usageStats halfHits) = 1 / 2"
    by (simp add: spec_cacheHitRate_def halfHits_def)
  ultimately show ?thesis by simp
qed


subsection \<open>Daily reset\<close>

text \<open>
  C2 does not hold of the code. Only \<open>loadUsageStats\<close> compares the stored date with
  today's. With a record last reset yesterday and \<open>dailyRequests = 100\<close>, the limit of
  config.js, and no reload: \<open>canMakeRequest\<close> answers \<open>false\<close> on the new day, where
  the reset would have made it answer \<open>true\<close>; \<open>recordRequest\<close> counts on to \<open>101\<close>
  and keeps yesterday's date; \<open>getUsageStats\<close> reports \<open>100\<close>.
\<close>

theorem governor_keeps_yesterdays_count:
  "lastReset (usageStats yesterdayFull) \<noteq> ''Tue Nov 03 2026'' \<and>
   canMakeRequest (config_js []) 1793664000000 yesterdayFull = False \<and>
   canMakeRequest (config_js []) 1793664000000
     (yesterdayFull\<lparr>usageStats := resetIfNewDay ''Tue Nov 03 2026'' (usageStats yesterdayFull)\<rparr>) = True \<and>
   dailyRequests (usageStats (recordRequest 1793664000000 yesterdayFull 0)) = 101 \<and>
   lastReset (usageStats (recordRequest 1793664000000 yesterdayFull 0)) = ''Mon Nov 02 2026'' \<and>
   st_dailyRequests (getUsageStats yesterdayFull) = 100"
  by (simp add: yesterdayFull_def newCacheManager_def canMakeRequest_def config_js_def
      resetIfNewDay_def recordRequest_def saveUsageStats_def getUsageStats_def Let_def)


subsection \<open>Write-through\<close>

lemma mutators_flush:
  assumes "diskWritable s"
  shows "ENABLE_CACHE cfg \<Longrightarrow>
           cacheFile (set_cm cfg now s input sugg) = Some (objectEntries (cache (set_cm cfg now s input sugg)))"
    and "cacheFile (clearCache s) = Some (objectEntries (cache (clearCache s)))"
    and "usageFile (recordRequest now s n) = Some (usageStats (recordRequest now s n))"
    and "usageFile (resetUsageStats today s) = Some (usageStats (resetUsageStats today s))"
  using assms
  by (simp_all add: set_cm_def clearCache_def recordRequest_def resetUsageStats_def saveCache_def
      saveUsageStats_def Let_def)

lemma get_never_writes:
  "usageFile (snd (get cfg now s input)) = usageFile s \<and> cacheFile (snd (get cfg now s input)) = cacheFile s"
  by (simp add: get_def Let_def split: option.splits)

text \<open>
  C8 does not hold of the code. \<open>set\<close>, \<open>clearCache\<close>, \<open>recordRequest\<close> and
  \<open>resetUsageStats\<close> write the structure they changed (first lemma); \<open>get\<close> never
  writes (second lemma). On a writable disk, a cache hit raises \<open>cachedHits\<close> from
  \<open>0\<close> to \<open>1\<close> in memory while usage.json still holds the record with \<open>0\<close>.
\<close>

theorem get_hit_not_flushed:
  "diskWritable oneCached \<and>
   usageFile oneCached = Some (usageStats oneCached) \<and>
   fst (get (config_js []) 1000 oneCached ''git st'') = Some ''git status'' \<and>
   cachedHits (usageStats (snd (get (config_js []) 1000 oneCached ''git st''))) = 1 \<and>
   usageFile (snd (get (config_js []) 1000 oneCached ''git st'')) = Some (usageStats oneCached) \<and>
   cachedHits (usageStats oneCached) = 0 \<and>
   usageFile (snd (get (config_js []) 1000 oneCached ''git st'')) \<noteq>
     Some (usageStats (snd (get (config_js []) 1000 oneCached ''git st'')))"
  by (simp add: oneCached_def get_def set_cm_def saveCache_def saveUsageStats_def newCacheManager_def
      freshUsageStats_def config_js_def evictOldest_def Map_size_def Map_get_def getCacheKey_def
      trim_def toLowerCase_def lowerChar_def isWhiteSpace_def Let_def)


subsection \<open>The prompt\<close>

lemma getContextualSuggestion_no_prompt:
  "fst (getContextualSuggestion context_manager_scope e cm userInput) \<noteq> Inr (WithPrompt prompt)"
  by (simp add: getContextualSuggestion_def Let_def buildContextPrompt_def context_manager_scope_def
      split: list.splits)

lemma getCommandSuggestion_never_dispatches:
  "snd (snd (getCommandSuggestion cfg context_manager_scope e net tm sv userInput)) = []"
  by (simp add: getCommandSuggestion_def getContextualSuggestion_def Let_def buildContextPrompt_def
      context_manager_scope_def split: prod.splits list.splits option.splits)

lemma no_match_example:
  "matchingCommands (updateContext gitRepoEnv (contextManager oneKey)) ''docker ru'' = []"
  by code_simp

lemma no_match_reaches:
  "ENABLE_SUGGESTIONS (config_js [''k0''])"
  "\<not> length (trim ''docker ru'') < MIN_INPUT_LENGTH (config_js [''k0''])"
  "\<not> truthy (fst (get (config_js [''k0'']) (t_get noon) (cacheManager oneKey) ''docker ru''))"
  "canMakeRequest (config_js [''k0'']) (t_check noon)
     (snd (get (config_js [''k0'']) (t_get noon) (cacheManager oneKey) ''docker ru''))"
  by code_simp+

text \<open>
  With \<open>config\<close> bound, the function returns the signals in the order directory, git,
  package.json, recent commands, file counts, then the input and the instruction.
\<close>

lemma buildContextPrompt_bound:
  "buildContextPrompt (Some cfg) cm userInput =
     Inr (''Context: Working in '' @ dq @ directory (getContextSummary cm) @ dq @ '' directory. '' @
          gitPart (getContextSummary cm) @ nodePart (getContextSummary cm) @
          recentPart (getContextSummary cm) @ filePart (getContextSummary cm) @
          ''User input: '' @ dq @ userInput @ dq @ ''. '' @
          ''Suggest the most relevant command completion ('' @
          showNat (MAX_SUGGESTION_LENGTH cfg) @ '' chars max).'')"
  by (simp add: buildContextPrompt_def Let_def)

text \<open>
  C3 does not hold of the code. \<open>buildContextPrompt\<close> assembles the signals in the
  order of the claim and then reads \<open>config\<close>, which context-manager.js never binds:
  for every context and every input it throws a ReferenceError and returns no prompt.
  So \<open>getContextualSuggestion\<close> never returns a prompt and \<open>getCommandSuggestion\<close>
  never sends a request; in a git repository the input \<open>docker ru\<close>, which matches no
  canonical command, gets \<open>null\<close> although the endpoint would answer.
\<close>

theorem buildContextPrompt_throws:
  "buildContextPrompt context_manager_scope cm userInput = Inl ReferenceError \<and>
   fst (getContextualSuggestion context_manager_scope e cm userInput) \<noteq> Inr (WithPrompt prompt) \<and>
   snd (snd (getCommandSuggestion cfg context_manager_scope e net tm sv userInput)) = [] \<and>
   matchingCommands (updateContext gitRepoEnv (contextManager oneKey)) ''docker ru'' = [] \<and>
   getContextualSuggestion context_manager_scope gitRepoEnv (contextManager oneKey) ''docker ru'' =
     (Inl ReferenceError, updateContext gitRepoEnv (contextManager oneKey)) \<and>
   fst (getCommandSuggestion (config_js [''k0'']) context_manager_scope gitRepoEnv
          (\<lambda>prompt. answer (okResponse ''docker run'')) noon oneKey ''docker ru'') = None"
proof -
  have throws: "buildContextPrompt context_manager_scope c u = Inl ReferenceError" for c u
    by (simp add: buildContextPrompt_def context_manager_scope_def Let_def)
  have ctx: "getContextualSuggestion context_manager_scope gitRepoEnv (contextManager oneKey) ''docker ru'' =
      (Inl ReferenceError, updateContext gitRepoEnv (contextManager oneKey))"
    by (simp add: getContextualSuggestion_def Let_def no_match_example throws)
  have "fst (getCommandSuggestion (config_js [''k0'']) context_manager_scope gitRepoEnv
          (\<lambda>prompt. answer (okResponse ''docker run'')) noon oneKey ''docker ru'') = None"
    using no_match_reaches by (simp add: getCommandSuggestion_def Let_def case_prod_beta ctx)
  then show ?thesis
    using throws ctx no_match_example getContextualSuggestion_no_prompt
      getCommandSuggestion_never_dispatches by simp
qed


subsection \<open>Direct match\<close>

lemma get_frame:
  "cache (snd (get cfg now s input)) = cache s"
  "lastRequestTime (snd (get cfg now s input)) = lastRequestTime s"
  "totalRequests (usageStats (snd (get cfg now s input))) = totalRequests (usageStats s)"
  "dailyRequests (usageStats (snd (get cfg now s input))) = dailyRequests (usageStats s)"
  "costEstimate (usageStats (snd (get cfg now s input))) = costEstimate (usageStats s)"
  by (simp_all add: get_def Let_def split: option.splits)

lemma canMakeRequest_get:
  "canMakeRequest cfg t (snd (get cfg now s input)) = canMakeRequest cfg t s"
  by (simp add: canMakeRequest_def get_frame)

lemma getContextualSuggestion_direct:
  "matchingCommands (updateContext e cm) userInput = m # ms \<Longrightarrow>
   getContextualSuggestion scope e cm userInput = (Inr (Direct m), updateContext e cm)"
  by (simp add: getContextualSuggestion_def Let_def)

lemma getCommandSuggestion_direct:
  assumes m: "matchingCommands (updateContext e (contextManager sv)) userInput = m # ms"
  shows "getCommandSuggestion cfg scope e net tm sv userInput =
    (if \<not> ENABLE_SUGGESTIONS cfg then (None, sv, [])
     else if length (trim userInput) < MIN_INPUT_LENGTH cfg then (None, sv, [])
     else if truthy (fst (get cfg (t_get tm) (cacheManager sv) userInput))
       then (fst (get cfg (t_get tm) (cacheManager sv) userInput),
             sv\<lparr>cacheManager := snd (get cfg (t_get tm) (cacheManager sv) userInput)\<rparr>, [])
     else if \<not> canMakeRequest cfg (t_check tm) (cacheManager sv)
       then (None, sv\<lparr>cacheManager := snd (get cfg (t_get tm) (cacheManager sv) userInput)\<rparr>, [])
     else (Some m, sv\<lparr>cacheManager := snd (get cfg (t_get tm) (cacheManager sv) userInput),
                       contextManager := updateContext e (contextManager sv)\<rparr>, []))"
  using getContextualSuggestion_direct [OF m, of scope]
  by (simp add: getCommandSuggestion_def Let_def canMakeRequest_get case_prod_beta)

lemma filter_first_index:
  "i < length xs \<Longrightarrow> P (xs ! i) \<Longrightarrow> \<forall>j<i. \<not> P (xs ! j) \<Longrightarrow> \<exists>ys. filter P xs = xs ! i # ys"
proof (induction xs arbitrary: i)
  case Nil
  then show ?case by simp
next
  case (Cons x xs)
  show ?case
  proof (cases i)
    case 0
    then show ?thesis using Cons.prems(2) by simp
  next
    case (Suc k)
    have nx: "\<not> P x" using Cons.prems(3) Suc by (auto dest: spec [of _ 0])
    have "\<forall>j<k. \<not> P (xs ! j)"
    proof (intro allI impI)
      fix j assume "j < k"
      then have "Suc j < i" using Suc by simp
      then have "\<not> P ((x # xs) ! Suc j)" using Cons.prems(3) by blast
      then show "\<not> P (xs ! j)" by simp
    qed
    moreover have "k < length xs" "P (xs ! k)" using Cons.prems(1,2) Suc by simp_all
    ultimately obtain ys where "filter P xs = xs ! k # ys" using Cons.IH by blast
    then show ?thesis using nx Suc by simp
  qed
qed

lemma currentKeyIndex_direct:
  "matchingCommands (updateContext e (contextManager sv)) userInput = m # ms \<Longrightarrow>
   currentKeyIndex (fst (snd (getCommandSuggestion cfg scope e net tm sv userInput))) = currentKeyIndex sv"
  by (simp add: getCommandSuggestion_direct)

text \<open>
  C5, amended. If some canonical command of the snapshot's category starts, lower-cased,
  with the lower-cased input, \<open>getCommandSuggestion\<close> sends no request, leaves the
  cursor where it is, and leaves the cache contents, \<open>totalRequests\<close>,
  \<open>dailyRequests\<close>, \<open>costEstimate\<close> and the time of the last request as they were;
  and if moreover suggestions are enabled, the trimmed input has at least
  \<open>MIN_INPUT_LENGTH\<close> characters, the cache yields no suggestion for the input and the
  governor permits a request, it returns the first such command in the order of the
  category's list. This holds whatever \<open>config\<close> is bound to in context-manager.js.
\<close>

theorem direct_match_short_circuit:
  assumes i: "i < length (getRelevantCommands (updateContext e (contextManager sv)))"
    and hit: "startsWith (toLowerCase (getRelevantCommands (updateContext e (contextManager sv)) ! i))
                (toLowerCase userInput)"
    and first: "\<forall>j<i. \<not> startsWith
                  (toLowerCase (getRelevantCommands (updateContext e (contextManager sv)) ! j))
                  (toLowerCase userInput)"
  shows "snd (snd (getCommandSuggestion cfg scope e net tm sv userInput)) = [] \<and>
    currentKeyIndex (fst (snd (getCommandSuggestion cfg scope e net tm sv userInput))) =
      currentKeyIndex sv \<and>
    cache (cacheManager (fst (snd (getCommandSuggestion cfg scope e net tm sv userInput)))) =
      cache (cacheManager sv) \<and>
    totalRequests (usageStats (cacheManager (fst (snd (getCommandSuggestion cfg scope e net tm sv userInput))))) =
      totalRequests (usageStats (cacheManager sv)) \<and>
    dailyRequests (usageStats (cacheManager (fst (snd (getCommandSuggestion cfg scope e net tm sv userInput))))) =
      dailyRequests (usageStats (cacheManager sv)) \<and>
    costEstimate (usageStats (cacheManager (fst (snd (getCommandSuggestion cfg scope e net tm sv userInput))))) =
      costEstimate (usageStats (cacheManager sv)) \<and>
    lastRequestTime (cacheManager (fst (snd (getCommandSuggestion cfg scope e net tm sv userInput)))) =
      lastRequestTime (cacheManager sv) \<and>
    (ENABLE_SUGGESTIONS cfg \<and> MIN_INPUT_LENGTH cfg \<le> length (trim userInput) \<and>
     \<not> truthy (fst (get cfg (t_get tm) (cacheManager sv) userInput)) \<and>
     canMakeRequest cfg (t_check tm) (cacheManager sv) \<longrightarrow>
       fst (getCommandSuggestion cfg scope e net tm sv userInput) =
         Some (getRelevantCommands (updateContext e (contextManager sv)) ! i))"
proof -
  obtain ms where m: "matchingCommands (updateContext e (contextManager sv)) userInput =
      getRelevantCommands (updateContext e (contextManager sv)) ! i # ms"
    using filter_first_index [OF i, of "\<lambda>cmd. startsWith (toLowerCase cmd) (toLowerCase userInput)"]
      hit first
    unfolding matchingCommands_def by blast
  show ?thesis
    unfolding getCommandSuggestion_direct [OF m]
    by (simp add: get_frame)
qed

lemma oneKey_simps:
  "apiKeys oneKey = [Some ''k0'']" "currentKeyIndex oneKey = 0"
  "cacheManager oneKey = newCacheManager ''Tue Nov 03 2026'' None None True"
  "contextManager oneKey = newContextManager ''/home/user/project''"
  by (simp_all add: oneKey_def newService_def config_js_def)

lemma gitRepo_matches:
  "matchingCommands (updateContext gitRepoEnv (contextManager oneKey)) ''git'' =
     ''git status'' # [''git add .'', ''git commit'', ''git push'', ''git pull'']"
  by code_simp

lemma gitRepo_reaches:
  "ENABLE_SUGGESTIONS (config_js [''k0''])"
  "MIN_INPUT_LENGTH (config_js [''k0'']) \<le> length (trim ''git'')"
  "\<not> truthy (fst (get (config_js [''k0'']) (t_get noon) (cacheManager oneKey) ''git''))"
  "canMakeRequest (config_js [''k0'']) (t_check noon) (cacheManager oneKey)"
  by code_simp+

lemma gitRepo_commands:
  "getRelevantCommands (updateContext gitRepoEnv (contextManager oneKey)) =
     [''git status'', ''git add .'', ''git commit'', ''git push'', ''git pull'']"
  by code_simp

lemma gitP_matches:
  "startsWith (toLowerCase ''git push'') (toLowerCase ''GIT P'')"
  "\<not> startsWith (toLowerCase ''git status'') (toLowerCase ''GIT P'')"
  "\<not> startsWith (toLowerCase ''git add .'') (toLowerCase ''GIT P'')"
  "\<not> startsWith (toLowerCase ''git commit'') (toLowerCase ''GIT P'')"
  by code_simp+

lemma gitP_reaches:
  "ENABLE_SUGGESTIONS (config_js [''k0''])"
  "MIN_INPUT_LENGTH (config_js [''k0'']) \<le> length (trim ''GIT P'')"
  "\<not> truthy (fst (get (config_js [''k0'']) (t_get noon) (cacheManager oneKey) ''GIT P''))"
  "canMakeRequest (config_js [''k0'']) (t_check noon) (cacheManager oneKey)"
  by code_simp+

lemma all_less_3: "(\<forall>j<3. P j) \<longleftrightarrow> P (0::nat) \<and> P 1 \<and> P 2"
proof -
  have "j < 3 \<longleftrightarrow> j = 0 \<or> j = 1 \<or> j = 2" for j :: nat by auto
  then show ?thesis by auto
qed

theorem direct_match_short_circuit_witness:
  "getRelevantCommands (updateContext gitRepoEnv (contextManager oneKey)) ! 3 = ''git push'' \<and>
   startsWith (toLowerCase ''git push'') (toLowerCase ''GIT P'') \<and>
   \<not> startsWith (toLowerCase ''git status'') (toLowerCase ''GIT P'') \<and>
   \<not> startsWith (toLowerCase ''git add .'') (toLowerCase ''GIT P'') \<and>
   \<not> startsWith (toLowerCase ''git commit'') (toLowerCase ''GIT P'') \<and>
   ENABLE_SUGGESTIONS (config_js [''k0'']) \<and>
   MIN_INPUT_LENGTH (config_js [''k0'']) \<le> length (trim ''GIT P'') \<and>
   \<not> truthy (fst (get (config_js [''k0'']) (t_get noon) (cacheManager oneKey) ''GIT P'')) \<and>
   canMakeRequest (config_js [''k0'']) (t_check noon) (cacheManager oneKey) \<and>
   fst (getCommandSuggestion (config_js [''k0'']) context_manager_scope gitRepoEnv (\<lambda>prompt. failAlways)
          noon oneKey ''GIT P'') = Some ''git push'' \<and>
   snd (snd (getCommandSuggestion (config_js [''k0'']) context_manager_scope gitRepoEnv
          (\<lambda>prompt. failAlways) noon oneKey ''GIT P'')) = []"
proof -
  let ?cmds = "getRelevantCommands (updateContext gitRepoEnv (contextManager oneKey))"
  have i: "3 < length ?cmds" by (simp add: gitRepo_commands)
  have c3: "?cmds ! 3 = ''git push''" by (simp add: gitRepo_commands)
  have hit: "startsWith (toLowerCase (?cmds ! 3)) (toLowerCase ''GIT P'')"
    by (simp only: c3 gitP_matches)
  have first: "\<forall>j<3. \<not> startsWith (toLowerCase (?cmds ! j)) (toLowerCase ''GIT P'')"
    unfolding all_less_3 by (simp add: gitRepo_commands gitP_matches)
  show ?thesis
    using direct_match_short_circuit [OF i hit first, where cfg = "config_js [''k0'']"
      and scope = context_manager_scope and net = "\<lambda>prompt. failAlways" and tm = noon]
      gitP_matches gitP_reaches
    by (simp only: c3) blast
qed

lemma short_input:
  "fst (getCommandSuggestion (config_js [''k0'']) context_manager_scope gitRepoEnv (\<lambda>prompt. failAlways)
          noon oneKey ''gi'') = None"
  by (simp add: getCommandSuggestion_def config_js_def trim_def isWhiteSpace_def)

lemma cooling_down:
  "\<not> canMakeRequest (config_js [''k0'']) (t_check noon) (cacheManager justRequested)"
  "\<not> truthy (fst (get (config_js [''k0'']) (t_get noon) (cacheManager justRequested) ''git''))"
  by code_simp+

text \<open>
  C5 as stated fails: in a git repository \<open>git status\<close> is a direct match for \<open>gi\<close>
  and for \<open>git\<close>, but \<open>gi\<close> is shorter than the \<open>MIN_INPUT_LENGTH\<close> of config.js and
  gets \<open>null\<close>, and so does \<open>git\<close> one second after a request, inside the cooldown.
\<close>

theorem direct_match_not_returned_counterexample:
  "getRelevantCommands (updateContext gitRepoEnv (contextManager oneKey)) ! 0 = ''git status'' \<and>
   startsWith (toLowerCase ''git status'') (toLowerCase ''gi'') \<and>
   fst (getCommandSuggestion (config_js [''k0'']) context_manager_scope gitRepoEnv (\<lambda>prompt. failAlways)
          noon oneKey ''gi'') = None \<and>
   getRelevantCommands (updateContext gitRepoEnv (contextManager justRequested)) ! 0 = ''git status'' \<and>
   startsWith (toLowerCase ''git status'') (toLowerCase ''git'') \<and>
   fst (getCommandSuggestion (config_js [''k0'']) context_manager_scope gitRepoEnv (\<lambda>prompt. failAlways)
          noon justRequested ''git'') = None"
proof -
  have a: "getRelevantCommands (updateContext gitRepoEnv (contextManager oneKey)) ! 0 = ''git status''"
    by (simp add: gitRepo_commands)
  have b: "contextManager justRequested = contextManager oneKey" by (simp add: justRequested_def)
  have p: "startsWith (toLowerCase ''git status'') (toLowerCase ''gi'')"
    "startsWith (toLowerCase ''git status'') (toLowerCase ''git'')"
    by code_simp+
  have m: "matchingCommands (updateContext gitRepoEnv (contextManager justRequested)) ''git'' =
      ''git status'' # [''git add .'', ''git commit'', ''git push'', ''git pull'']"
    by (simp only: b gitRepo_matches)
  have len: "\<not> length (trim ''git'') < MIN_INPUT_LENGTH (config_js [''k0''])" by code_simp
  have "fst (getCommandSuggestion (config_js [''k0'']) context_manager_scope gitRepoEnv (\<lambda>prompt. failAlways)
          noon justRequested ''git'') = None"
    unfolding getCommandSuggestion_direct [OF m]
    using cooling_down gitRepo_reaches(1) len by simp
  then show ?thesis using a b p short_input by simp
qed


subsection \<open>Response acceptance\<close>

lemma acceptResponse_none:
  "firstCandidate r = None \<Longrightarrow> acceptResponse cfg tm cmgr userInput r = (None, cmgr)"
  "firstCandidate r = Some c \<Longrightarrow> candidateText c = Inl err \<Longrightarrow>
     acceptResponse cfg tm cmgr userInput r = (None, cmgr)"
  by (simp_all add: acceptResponse_def)

lemma acceptResponse_text:
  "firstCandidate r = Some c \<Longrightarrow> candidateText c = Inr t \<Longrightarrow>
   acceptResponse cfg tm cmgr userInput r =
     (Some (take (MAX_SUGGESTION_LENGTH cfg) (trim t)),
      recordRequest (t_record tm)
        (set_cm cfg (t_set tm) cmgr userInput (take (MAX_SUGGESTION_LENGTH cfg) (trim t)))
        (tokenCountOf r))"
  by (simp add: acceptResponse_def Let_def)

lemma dispatchAndAccept_response:
  "postWithKeyRotation p sv 0 = (Inr r, sv', sent) \<Longrightarrow>
   dispatchAndAccept cfg tm p sv userInput =
     (fst (acceptResponse cfg tm (cacheManager sv') userInput r),
      sv'\<lparr>cacheManager := snd (acceptResponse cfg tm (cacheManager sv') userInput r)\<rparr>, sent)"
  by (simp add: dispatchAndAccept_def split: prod.splits)


lemma firstCandidate_None_iff:
  "firstCandidate r = None \<longleftrightarrow>
     rdata r = None \<or>
     (\<exists>d. rdata r = Some d \<and>
        (candidates d = None \<or> candidates d = Some [] \<or> (\<exists>cs. candidates d = Some (None # cs))))"
  by (auto simp: firstCandidate_def split: option.splits list.splits)

lemma candidateText_Inr_iff:
  "candidateText c = Inr t \<longleftrightarrow>
     (\<exists>ct pt ps. content c = Some ct \<and> parts ct = Some (pt # ps) \<and> text_of pt = Some t)"
  by (auto simp: candidateText_def split: option.splits list.splits)

lemma candidateText_error: "candidateText c = Inl err \<Longrightarrow> err = TypeError"
  by (auto simp: candidateText_def split: option.splits list.splits)

lemma post_answer: "postWithKeyRotation (answer r) oneKey 0 = (Inr r, oneKey, [0])"
  by (subst postWithKeyRotation.simps) (simp add: answer_def oneKey_simps)










lemma plainOne_unchanged: "plainOne\<lparr>ps_cacheManager := ps_cacheManager plainOne\<rparr> = plainOne"
  by simp



text \<open>
  The same holds of lines 91 to 127 of the service with rotation, taken by themselves:
  the requests sent and the cursor are those of \<open>postWithKeyRotation\<close>.
\<close>

lemma dispatchAndAccept_acceptance:
  assumes d: "postWithKeyRotation p sv 0 = (Inr r, sv', sent)"
  shows "snd (snd (dispatchAndAccept cfg tm p sv userInput)) = sent \<and>
    currentKeyIndex (fst (snd (dispatchAndAccept cfg tm p sv userInput))) = currentKeyIndex sv' \<and>
    (firstCandidate r = None \<longrightarrow> dispatchAndAccept cfg tm p sv userInput = (None, sv', sent)) \<and>
    (\<forall>c. firstCandidate r = Some c \<and> candidateText c = Inl TypeError \<longrightarrow>
         dispatchAndAccept cfg tm p sv userInput = (None, sv', sent)) \<and>
    (\<forall>c t. firstCandidate r = Some c \<and> candidateText c = Inr t \<longrightarrow>
         dispatchAndAccept cfg tm p sv userInput =
           (Some (take (MAX_SUGGESTION_LENGTH cfg) (trim t)),
            sv'\<lparr>cacheManager :=
                  recordRequest (t_record tm)
                    (set_cm cfg (t_set tm) (cacheManager sv') userInput
                       (take (MAX_SUGGESTION_LENGTH cfg) (trim t)))
                    (tokenCountOf r)\<rparr>,
            sent))"
  unfolding dispatchAndAccept_response [OF d]
  by (auto simp: acceptResponse_none acceptResponse_text)

end
